theory Spec2Isabelle
  imports Complex_Main "HOL-Library.Monad_Syntax"
begin

section \<open>The coregionalization kernel of GPy (GPy/kern/\_src/coregionalize.py)\<close>

text \<open>
  The embedding follows the Python class \<open>Coregionalize\<close> method by method.
  Conventions:
  \<^item> floating-point numbers are read as real numbers (rounding is not modelled);
  \<^item> a two-dimensional C-contiguous numpy array is its shape together with its flat,
    row-major data, which is also what the inlined C code of the weave path indexes;
  \<^item> an index array \<open>X\<close> of shape \<open>(n, 1)\<close> is the list of its \<open>n\<close> integer entries;
    the conversion \<open>np.asarray(X, dtype=np.int)\<close> to 64-bit integers is modelled in
    \<open>_K_numpy\<close> and \<open>Kdiag\<close>, where entries that it changes are considered; in the
    other methods \<open>X\<close> stands for the converted array;
  \<^item> a Python exception is the outcome \<open>Raises e\<close>; an out-of-bounds access of the
    inlined C code is the outcome \<open>Undefined\<close> (no exception is raised for it);
  \<^item> the process-wide configuration, the outcome of each \<open>weave.inline\<close> call, the
    contents of uninitialised memory and the text printed live in an environment
    that every method taking part in them receives and returns;
  \<^item> array sizes and flat positions are taken to fit the C integer types of the
    inlined code (no overflow of \<open>int\<close> is modelled).
\<close>

subsection \<open>Outcomes\<close>

datatype error =
  AssertionError | IndexError | ValueError | AttributeError | OverflowError | WeaveError

datatype 'a result = Ok 'a | Raises error | Undefined

definition rbind :: "'a result \<Rightarrow> ('a \<Rightarrow> 'b result) \<Rightarrow> 'b result" where
  "rbind r f = (case r of Ok v \<Rightarrow> f v | Raises e \<Rightarrow> Raises e | Undefined \<Rightarrow> Undefined)"

subsection \<open>Arrays\<close>

record ndarray =
  nrows :: nat
  ncols :: nat
  data :: "real list"

definition wf_arr :: "ndarray \<Rightarrow> bool" where
  "wf_arr A \<longleftrightarrow> length (data A) = nrows A * ncols A"

text \<open>The array of shape \<open>(r, c)\<close> whose entry \<open>(i, j)\<close> is \<open>f i j\<close>.\<close>

definition mk :: "nat \<Rightarrow> nat \<Rightarrow> (nat \<Rightarrow> nat \<Rightarrow> real) \<Rightarrow> ndarray" where
  "mk r c f = \<lparr>nrows = r, ncols = c, data = concat (map (\<lambda>i. map (f i) [0..<c]) [0..<r])\<rparr>"

text \<open>\<open>A[i, j]\<close> for \<open>i\<close>, \<open>j\<close> within the shape.\<close>

definition entry :: "ndarray \<Rightarrow> nat \<Rightarrow> nat \<Rightarrow> real" where
  "entry A i j = data A ! (i * ncols A + j)"

text \<open>numpy broadcasting of one axis: equal lengths, or one of them is 1.\<close>

definition bdim :: "nat \<Rightarrow> nat \<Rightarrow> nat option" where
  "bdim m n = (if m = n then Some m else if m = 1 then Some n else if n = 1 then Some m else None)"

definition bat :: "ndarray \<Rightarrow> nat \<Rightarrow> nat \<Rightarrow> real" where
  "bat A i j = entry A (if nrows A = 1 then 0 else i) (if ncols A = 1 then 0 else j)"

text \<open>\<open>A + C\<close> on two-dimensional arrays.\<close>

definition np_add :: "ndarray \<Rightarrow> ndarray \<Rightarrow> ndarray result" where
  "np_add A C =
     (case (bdim (nrows A) (nrows C), bdim (ncols A) (ncols C)) of
        (Some r, Some c) \<Rightarrow> Ok (mk r c (\<lambda>i j. bat A i j + bat C i j))
      | _ \<Rightarrow> Raises ValueError)"

text \<open>\<open>np.dot(A, A.T)\<close>.\<close>

definition np_dot_T :: "ndarray \<Rightarrow> ndarray" where
  "np_dot_T A = mk (nrows A) (nrows A) (\<lambda>a b. \<Sum>k\<leftarrow>[0..<ncols A]. entry A a k * entry A b k)"

text \<open>\<open>np.diag(v)\<close> of a vector: the square matrix with \<open>v\<close> on its diagonal.\<close>

definition np_diag_matrix :: "real list \<Rightarrow> ndarray" where
  "np_diag_matrix v = mk (length v) (length v) (\<lambda>a b. if a = b then v ! a else 0)"

text \<open>\<open>np.diag(A)\<close> of a matrix: its diagonal, as values.\<close>

definition np_diag :: "ndarray \<Rightarrow> real list" where
  "np_diag A = map (\<lambda>a. entry A a a) [0..<min (nrows A) (ncols A)]"

text \<open>\<open>A.T\<close>, as values.\<close>

definition transpose_arr :: "ndarray \<Rightarrow> ndarray" where
  "transpose_arr A = mk (ncols A) (nrows A) (\<lambda>i j. entry A j i)"

text \<open>
  An integer used as an index into an axis of length \<open>n\<close>: numpy accepts
  \<open>-n \<le> v < n\<close>, a negative \<open>v\<close> counting from the end.
\<close>

definition np_index :: "nat \<Rightarrow> int \<Rightarrow> nat option" where
  "np_index n v =
     (if 0 \<le> v \<and> v < int n then Some (nat v)
      else if - int n \<le> v \<and> v < 0 then Some (nat (int n + v))
      else None)"

text \<open>
  \<open>A[rs, cs.T]\<close> with \<open>rs\<close> of shape \<open>(n1, 1)\<close> and \<open>cs.T\<close> of shape \<open>(1, n2)\<close>:
  the two index arrays broadcast to shape \<open>(n1, n2)\<close>. numpy checks the bounds of
  integer index arrays before it gathers, except when they broadcast to an empty
  shape: then it returns the empty result without looking at the indices
  (\<open>PyArray_MapIterCheckIndices\<close> in numpy's mapping.c).
\<close>

definition fancy2 :: "ndarray \<Rightarrow> int list \<Rightarrow> int list \<Rightarrow> ndarray result" where
  "fancy2 A rs cs =
     (if length rs * length cs = 0 then Ok (mk (length rs) (length cs) (\<lambda>i j. 0))
      else if (\<exists>r\<in>set rs. np_index (nrows A) r = None) \<or> (\<exists>c\<in>set cs. np_index (ncols A) c = None)
      then Raises IndexError
      else Ok (mk (length rs) (length cs)
                 (\<lambda>i j. entry A (the (np_index (nrows A) (rs ! i))) (the (np_index (ncols A) (cs ! j))))))"

text \<open>\<open>v[idx]\<close> with a one-dimensional integer index array.\<close>

definition fancy1 :: "real list \<Rightarrow> int list \<Rightarrow> real list result" where
  "fancy1 v idx =
     (if idx = [] then Ok []
      else if \<exists>x\<in>set idx. np_index (length v) x = None then Raises IndexError
      else Ok (map (\<lambda>x. v ! the (np_index (length v) x)) idx))"

subsection \<open>The kernel object\<close>

text \<open>
  \<open>B\<close> is an attribute that only \<open>parameters_changed\<close> assigns: before the first call
  it does not exist (\<open>None\<close>). \<open>W_gradient\<close> and \<open>kappa_gradient\<close> are the gradient
  slots of the parameters \<open>W\<close> and \<open>kappa\<close>.
\<close>

record kern =
  output_dim :: nat
  rank :: nat
  W :: ndarray
  kappa :: "real list"
  B :: "ndarray option"
  W_gradient :: ndarray
  kappa_gradient :: "real list"

text \<open>The shapes that the constructor establishes.\<close>

definition wf_kern :: "kern \<Rightarrow> bool" where
  "wf_kern k \<longleftrightarrow>
     nrows (W k) = output_dim k \<and> ncols (W k) = rank k \<and> wf_arr (W k) \<and>
     length (kappa k) = output_dim k"

text \<open>\<open>self.B = np.dot(self.W, self.W.T) + np.diag(self.kappa)\<close>\<close>

definition parameters_changed :: "kern \<Rightarrow> kern result" where
  "parameters_changed k =
     rbind (np_add (np_dot_T (W k)) (np_diag_matrix (kappa k))) (\<lambda>b. Ok (k\<lparr>B := Some b\<rparr>))"

text \<open>
  \<open>np.asarray(X, dtype=np.int)\<close> converts the index array to the platform's C \<open>long\<close>,
  64 bits wide. A list of integers stands for the integer array that holds its
  entries: a signed 64-bit array when every entry is in \<open>[-2\<^sup>6\<^sup>3, 2\<^sup>6\<^sup>3)\<close>, else an
  unsigned 64-bit array when every entry is in \<open>[0, 2\<^sup>6\<^sup>4)\<close>, else an array of Python
  integers. The conversion keeps the first, casts the entries of the second, so
  that \<open>v \<ge> 2\<^sup>6\<^sup>3\<close> wraps around to \<open>v - 2\<^sup>6\<^sup>4\<close>, and raises OverflowError on the
  third, which has an entry that no C \<open>long\<close> holds.
\<close>

definition fits_long :: "int list \<Rightarrow> bool" where
  "fits_long X \<longleftrightarrow> list_all (\<lambda>x. - (2 ^ 63) \<le> x \<and> x < 2 ^ 63) X"

definition fits_ulong :: "int list \<Rightarrow> bool" where
  "fits_ulong X \<longleftrightarrow> list_all (\<lambda>x. 0 \<le> x \<and> x < 2 ^ 64) X"

definition ulong_to_long :: "int \<Rightarrow> int" where
  "ulong_to_long v = (if v < 2 ^ 63 then v else v - 2 ^ 64)"

definition asarray_int :: "int list \<Rightarrow> int list result" where
  "asarray_int X =
     (if fits_long X then Ok X
      else if fits_ulong X then Ok (map ulong_to_long X)
      else Raises OverflowError)"

text \<open>
  \<open>_K_numpy\<close>:
  \<^verbatim>\<open>
  index = np.asarray(X, dtype=np.int)
  if X2 is None:
      return self.B[index,index.T]
  else:
      index2 = np.asarray(X2, dtype=np.int)
      return self.B[index,index2.T]
  \<close>
\<close>

definition K_numpy :: "kern \<Rightarrow> int list \<Rightarrow> int list option \<Rightarrow> ndarray result" where
  "K_numpy k X X2 =
     rbind (asarray_int X) (\<lambda>index.
       case X2 of
         None \<Rightarrow>
           (case B k of None \<Rightarrow> Raises AttributeError | Some b \<Rightarrow> fancy2 b index index)
       | Some Y \<Rightarrow>
           rbind (asarray_int Y) (\<lambda>index2.
             case B k of None \<Rightarrow> Raises AttributeError | Some b \<Rightarrow> fancy2 b index index2))"

text \<open>
  \<open>Kdiag\<close>: \<open>np.diag(self.B)[np.asarray(X, dtype=np.int).flatten()]\<close>; the diagonal
  is taken before the index is converted.
\<close>

definition Kdiag :: "kern \<Rightarrow> int list \<Rightarrow> real list result" where
  "Kdiag k X =
     (case B k of
        None \<Rightarrow> Raises AttributeError
      | Some b \<Rightarrow> rbind (asarray_int X) (\<lambda>index. fancy1 (np_diag b) index))"

subsection \<open>The environment\<close>

text \<open>
  \<^item> \<open>working\<close>: the configuration entry \<open>('weave', 'working')\<close>;
  \<^item> \<open>faults\<close>: for each coming call of \<open>weave.inline\<close>, whether it raises
    (compilation or execution of the native code failed); an empty list means that
    no further call raises;
  \<^item> \<open>junk\<close>: the contents of the memory that \<open>np.empty\<close> hands out;
  \<^item> \<open>diag_view\<close>: whether \<open>np.diag\<close> of a matrix returns a read-only view of the
    matrix's memory (numpy 1.9 and later, see the documentation of
    \<open>numpy.diagonal\<close>) or a copy (numpy 1.8 and earlier);
  \<^item> \<open>printed\<close>: the lines printed so far.
\<close>

record env =
  working :: bool
  faults :: "bool list"
  junk :: "nat \<Rightarrow> real"
  diag_view :: bool
  printed :: "string list"

text \<open>The two messages that the class prints (the first without its line breaks).\<close>

definition fallback_message :: string where
  "fallback_message = ''Weave compilation failed. Falling back to (slower) numpy implementation''"

definition rank_warning :: string where
  "rank_warning = ''Warning: Unusual choice of rank, it should normally be less than the output_dim.''"

definition np_empty :: "env \<Rightarrow> nat \<Rightarrow> nat \<Rightarrow> ndarray" where
  "np_empty s r c = \<lparr>nrows = r, ncols = c, data = map (junk s) [0..<r * c]\<rparr>"

definition zeros_like :: "ndarray \<Rightarrow> ndarray" where
  "zeros_like A = mk (nrows A) (ncols A) (\<lambda>i j. 0)"

subsection \<open>The inlined C code\<close>

text \<open>
  A C array is its flat data. A read or a write outside of it is undefined behaviour:
  \<open>None\<close>. The index arrays are read at positions below their own size only.
\<close>

definition c_read :: "real list \<Rightarrow> int \<Rightarrow> real option" where
  "c_read a p = (if 0 \<le> p \<and> p < int (length a) then Some (a ! nat p) else None)"

definition c_write :: "real list \<Rightarrow> int \<Rightarrow> real \<Rightarrow> real list option" where
  "c_write a p v = (if 0 \<le> p \<and> p < int (length a) then Some (a[nat p := v]) else None)"

text \<open>\<open>for(int i=0; i<n; i++) body\<close>\<close>

definition c_for :: "nat \<Rightarrow> (nat \<Rightarrow> 's \<Rightarrow> 's option) \<Rightarrow> 's \<Rightarrow> 's option" where
  "c_for n body s = fold (\<lambda>i acc. Option.bind acc (body i)) [0..<n] (Some s)"

text \<open>
  One call of \<open>weave.inline\<close>: it raises when the environment says so and otherwise
  has the effect of the C code.
\<close>

definition weave_inline :: "env \<Rightarrow> real list option \<Rightarrow> env \<times> real list result" where
  "weave_inline s code =
     (case faults s of
        [] \<Rightarrow> (s, case code of None \<Rightarrow> Undefined | Some d \<Rightarrow> Ok d)
      | f # fs \<Rightarrow> (s\<lparr>faults := fs\<rparr>,
                   if f then Raises WeaveError
                   else (case code of None \<Rightarrow> Undefined | Some d \<Rightarrow> Ok d)))"

text \<open>
  The code of \<open>_K_weave\<close> when \<open>X2\<close> is omitted:
  \<^verbatim>\<open>
  for(int i=0;i<N; i++){
    target[i+i*N] = B[index[i]+output_dim*index[i]];
    for(int j=0; j<i; j++){
        target[j+i*N] = B[index[i]+output_dim*index[j]];
        target[i+j*N] = target[j+i*N];
      }
    }
  \<close>
\<close>

definition K_weave_code1 :: "real list \<Rightarrow> int list \<Rightarrow> nat \<Rightarrow> nat \<Rightarrow> real list \<Rightarrow> real list option" where
  "K_weave_code1 Bd index N od target =
     c_for N (\<lambda>i t. do {
         v \<leftarrow> c_read Bd (index ! i + int od * index ! i);
         t \<leftarrow> c_write t (int i + int i * int N) v;
         c_for i (\<lambda>j t. do {
             v \<leftarrow> c_read Bd (index ! i + int od * index ! j);
             t \<leftarrow> c_write t (int j + int i * int N) v;
             w \<leftarrow> c_read t (int j + int i * int N);
             c_write t (int i + int j * int N) w
           }) t
       }) target"

text \<open>
  The code of \<open>_K_weave\<close> when \<open>X2\<close> is given:
  \<^verbatim>\<open>
  for(int i=0;i<num_inducing; i++){
    for(int j=0; j<N; j++){
        target[i+j*num_inducing] = B[output_dim*index[j]+index2[i]];
      }
    }
  \<close>
\<close>

definition K_weave_code2 ::
  "real list \<Rightarrow> int list \<Rightarrow> int list \<Rightarrow> nat \<Rightarrow> nat \<Rightarrow> nat \<Rightarrow> real list \<Rightarrow> real list option" where
  "K_weave_code2 Bd index index2 N num_inducing od target =
     c_for num_inducing (\<lambda>i t.
         c_for N (\<lambda>j t. do {
             v \<leftarrow> c_read Bd (int od * index ! j + index2 ! i);
             c_write t (int i + int j * int num_inducing) v
           }) t) target"

text \<open>
  The code of \<open>_gradient_reduce_weave\<close>:
  \<^verbatim>\<open>
  for(int i=0; i<num_inducing; i++){
    for(int j=0; j<N; j++){
      dL_dK_small[index[j] + output_dim*index2[i]] += dL_dK[i+j*num_inducing];
    }
  }
  \<close>
\<close>

definition gradient_reduce_code ::
  "real list \<Rightarrow> int list \<Rightarrow> int list \<Rightarrow> nat \<Rightarrow> nat \<Rightarrow> nat \<Rightarrow> real list \<Rightarrow> real list option" where
  "gradient_reduce_code dL index index2 N num_inducing od small =
     c_for num_inducing (\<lambda>i sm.
         c_for N (\<lambda>j sm. do {
             d \<leftarrow> c_read dL (int i + int j * int num_inducing);
             old \<leftarrow> c_read sm (index ! j + int od * index2 ! i);
             c_write sm (index ! j + int od * index2 ! i) (old + d)
           }) sm) small"

subsection \<open>Kernel evaluation\<close>

text \<open>\<open>_K_weave\<close>: the target is allocated uninitialised and filled by the C code.\<close>

definition K_weave :: "env \<Rightarrow> kern \<Rightarrow> int list \<Rightarrow> int list option \<Rightarrow> env \<times> ndarray result" where
  "K_weave s k X X2 =
     (case B k of
        None \<Rightarrow> (s, Raises AttributeError)
      | Some b \<Rightarrow>
          (case X2 of
             None \<Rightarrow>
               (let target = np_empty s (length X) (length X);
                    (s', r) = weave_inline s
                      (K_weave_code1 (data b) X (length X) (output_dim k) (data target))
                in (s', rbind r (\<lambda>d. Ok (target\<lparr>data := d\<rparr>))))
           | Some Y \<Rightarrow>
               (let target = np_empty s (length X) (length Y);
                    (s', r) = weave_inline s
                      (K_weave_code2 (data b) X Y (length X) (length Y) (output_dim k) (data target))
                in (s', rbind r (\<lambda>d. Ok (target\<lparr>data := d\<rparr>))))))"

text \<open>
  \<open>K\<close>: the weave path when the configuration says it works; any exception it raises
  is caught, the message is printed, the configuration entry is set to False and the
  numpy path answers.
\<close>

definition K :: "env \<Rightarrow> kern \<Rightarrow> int list \<Rightarrow> int list option \<Rightarrow> env \<times> ndarray result" where
  "K s k X X2 =
     (if working s then
        (case K_weave s k X X2 of
           (s', Raises e) \<Rightarrow>
             (s'\<lparr>working := False, printed := printed s' @ [fallback_message]\<rparr>, K_numpy k X X2)
         | (s', r) \<Rightarrow> (s', r))
      else (s, K_numpy k X X2))"

subsection \<open>Gradient reduction\<close>

text \<open>\<open>_gradient_reduce_weave\<close>: \<open>np.zeros_like(self.B)\<close>, accumulated into by the C code.\<close>

definition gradient_reduce_weave ::
  "env \<Rightarrow> kern \<Rightarrow> ndarray \<Rightarrow> int list \<Rightarrow> int list \<Rightarrow> env \<times> ndarray result" where
  "gradient_reduce_weave s k dL_dK index index2 =
     (case B k of
        None \<Rightarrow> (s, Raises AttributeError)
      | Some b \<Rightarrow>
          (let dL_dK_small = zeros_like b;
               (s', r) = weave_inline s
                 (gradient_reduce_code (data dL_dK) index index2 (length index) (length index2)
                    (output_dim k) (data dL_dK_small))
           in (s', rbind r (\<lambda>d. Ok (dL_dK_small\<lparr>data := d\<rparr>)))))"

text \<open>\<open>for i in range(n): body\<close>, where the body may raise.\<close>

definition py_for :: "nat \<Rightarrow> (nat \<Rightarrow> 's \<Rightarrow> 's result) \<Rightarrow> 's \<Rightarrow> 's result" where
  "py_for n body s = fold (\<lambda>i acc. rbind acc (body i)) [0..<n] (Ok s)"

text \<open>
  Boolean-mask indexing. A mask whose length differs from the length of the axis it
  indexes is an IndexError; the statements below are about masks of the right length.
  \<open>A[m]\<close> keeps the rows of \<open>A\<close> at which \<open>m\<close> is true, \<open>A[:, m]\<close> the columns, and
  \<open>v[m]\<close> the entries of a vector.
\<close>

definition mask_rows :: "ndarray \<Rightarrow> bool list \<Rightarrow> ndarray result" where
  "mask_rows A m =
     (if length m \<noteq> nrows A then Raises IndexError
      else (let sel = filter (\<lambda>r. m ! r) [0..<nrows A]
            in Ok \<lparr>nrows = length sel, ncols = ncols A,
                    data = concat (map (\<lambda>r. map (entry A r) [0..<ncols A]) sel)\<rparr>))"

definition mask_cols :: "ndarray \<Rightarrow> bool list \<Rightarrow> ndarray result" where
  "mask_cols A m =
     (if length m \<noteq> ncols A then Raises IndexError
      else (let sel = filter (\<lambda>c. m ! c) [0..<ncols A]
            in Ok \<lparr>nrows = nrows A, ncols = length sel,
                    data = concat (map (\<lambda>r. map (entry A r) sel) [0..<nrows A])\<rparr>))"

definition mask_vec :: "real list \<Rightarrow> bool list \<Rightarrow> real list result" where
  "mask_vec v m =
     (if length m \<noteq> length v then Raises IndexError
      else Ok (map (\<lambda>r. v ! r) (filter (\<lambda>r. m ! r) [0..<length v])))"

text \<open>\<open>index == i\<close>\<close>

definition eq_mask :: "int list \<Rightarrow> nat \<Rightarrow> bool list" where
  "eq_mask index i = map (\<lambda>x. x = int i) index"

text \<open>\<open>A[j, i] = v\<close> for non-negative \<open>j\<close>, \<open>i\<close>.\<close>

definition setitem :: "ndarray \<Rightarrow> nat \<Rightarrow> nat \<Rightarrow> real \<Rightarrow> ndarray result" where
  "setitem A j i v =
     (if j < nrows A \<and> i < ncols A then Ok (A\<lparr>data := (data A)[j * ncols A + i := v]\<rparr>)
      else Raises IndexError)"

text \<open>
  \<open>_gradient_reduce_numpy\<close>:
  \<^verbatim>\<open>
  dL_dK_small = np.zeros_like(self.B)
  for i in range(self.output_dim):
      tmp1 = dL_dK[index==i]
      for j in range(self.output_dim):
          dL_dK_small[j,i] = tmp1[:,index2==j].sum()
  return dL_dK_small
  \<close>
\<close>

definition gradient_reduce_numpy :: "kern \<Rightarrow> ndarray \<Rightarrow> int list \<Rightarrow> int list \<Rightarrow> ndarray result" where
  "gradient_reduce_numpy k dL_dK index index2 =
     (case B k of
        None \<Rightarrow> Raises AttributeError
      | Some b \<Rightarrow>
          py_for (output_dim k) (\<lambda>i small.
              rbind (mask_rows dL_dK (eq_mask index i)) (\<lambda>tmp1.
                py_for (output_dim k) (\<lambda>j small.
                    rbind (mask_cols tmp1 (eq_mask index2 j)) (\<lambda>sub.
                      setitem small j i (sum_list (data sub)))) small))
            (zeros_like b))"

subsection \<open>Gradients of the parameters\<close>

text \<open>
  A one-dimensional array is either its own values or a view of the diagonal of a
  matrix that lives in the store; a view shows what the matrix holds when the view is
  read.
\<close>

datatype vec_ref = Values "real list" | Diagonal_of nat

type_synonym store = "nat \<Rightarrow> ndarray option"

definition deref :: "store \<Rightarrow> vec_ref \<Rightarrow> real list" where
  "deref h r =
     (case r of
        Values v \<Rightarrow> v
      | Diagonal_of a \<Rightarrow> (case h a of None \<Rightarrow> [] | Some A \<Rightarrow> np_diag A))"

text \<open>\<open>np.diag(A)\<close> for the matrix at address \<open>a\<close>.\<close>

definition np_diag_of :: "env \<Rightarrow> store \<Rightarrow> nat \<Rightarrow> vec_ref" where
  "np_diag_of s h a = (if diag_view s then Diagonal_of a else Values (deref h (Diagonal_of a)))"

text \<open>
  \<open>A += A.T\<close> in place, for the matrix at address \<open>a\<close>: the sum is formed from the
  values before the statement and written back into the same memory (what numpy 1.13
  and later define for overlapping operands, and what earlier versions compute while
  the matrix fits their buffer of 8192 entries). A matrix that is not square cannot
  take the sum: ValueError.
\<close>

definition iadd_transpose :: "store \<Rightarrow> nat \<Rightarrow> store result" where
  "iadd_transpose h a =
     (case h a of
        None \<Rightarrow> Raises AttributeError
      | Some A \<Rightarrow>
          (if nrows A = ncols A
           then Ok (h(a \<mapsto> mk (nrows A) (ncols A) (\<lambda>i j. entry A i j + entry A j i)))
           else Raises ValueError))"

text \<open>
  \<open>(W[:, None, :] * S[:, :, None]).sum(0)\<close>: the product has shape
  \<open>(r, ncols S, ncols W)\<close> with \<open>r\<close> the broadcast of the two row counts, and its first
  axis is summed.
\<close>

definition dW_of :: "ndarray \<Rightarrow> ndarray \<Rightarrow> ndarray result" where
  "dW_of Wm S =
     (case bdim (nrows Wm) (nrows S) of
        None \<Rightarrow> Raises ValueError
      | Some r \<Rightarrow>
          Ok (mk (ncols S) (ncols Wm)
                (\<lambda>b c. \<Sum>a\<leftarrow>[0..<r]. entry Wm (if nrows Wm = 1 then 0 else a) c
                                    * entry S (if nrows S = 1 then 0 else a) b)))"

text \<open>The address at which \<open>update_gradients_full\<close> keeps \<open>dL_dK_small\<close>.\<close>

definition small_addr :: nat where
  "small_addr = 0"

text \<open>
  \<open>update_gradients_full\<close>. In the handler of the weave failure the source calls
  \<open>_gradient_reduce_weave\<close> a second time.
\<close>

definition update_gradients_full ::
  "env \<Rightarrow> kern \<Rightarrow> ndarray \<Rightarrow> int list \<Rightarrow> int list option \<Rightarrow> env \<times> kern result" where
  "update_gradients_full s k dL_dK X X2 =
     (let index = X;
          index2 = (case X2 of None \<Rightarrow> index | Some Y \<Rightarrow> Y);
          (s1, reduced) =
            (if working s then
               (case gradient_reduce_weave s k dL_dK index index2 of
                  (s', Raises e) \<Rightarrow>
                    gradient_reduce_weave
                      (s'\<lparr>working := False, printed := printed s' @ [fallback_message]\<rparr>)
                      k dL_dK index index2
                | (s', r) \<Rightarrow> (s', r))
             else (s, gradient_reduce_numpy k dL_dK index index2))
      in (s1,
          rbind reduced (\<lambda>dL_dK_small.
            let h = (\<lambda>a. None)(small_addr \<mapsto> dL_dK_small);
                dkappa = np_diag_of s1 h small_addr
            in rbind (iadd_transpose h small_addr) (\<lambda>h'.
                 rbind (dW_of (W k) (the (h' small_addr))) (\<lambda>dW.
                   Ok (k\<lparr>W_gradient := dW, kappa_gradient := deref h' dkappa\<rparr>))))))"

text \<open>\<open>[f(i) for i in xrange(n)]\<close>, where \<open>f\<close> may raise.\<close>

fun result_map :: "('a \<Rightarrow> 'b result) \<Rightarrow> 'a list \<Rightarrow> 'b list result" where
  "result_map f [] = Ok []"
| "result_map f (x # xs) = rbind (f x) (\<lambda>y. rbind (result_map f xs) (\<lambda>ys. Ok (y # ys)))"

text \<open>\<open>2. * A * s[:, None]\<close>: every row \<open>a\<close> of \<open>2 A\<close> is scaled by \<open>s[a]\<close> (with broadcasting).\<close>

definition scale_rows :: "ndarray \<Rightarrow> real list \<Rightarrow> ndarray result" where
  "scale_rows A s =
     (case bdim (nrows A) (length s) of
        None \<Rightarrow> Raises ValueError
      | Some r \<Rightarrow>
          Ok (mk r (ncols A)
                (\<lambda>a c. 2 * entry A (if nrows A = 1 then 0 else a) c
                          * s ! (if length s = 1 then 0 else a))))"

text \<open>
  \<open>update_gradients_diag\<close>:
  \<^verbatim>\<open>
  index = np.asarray(X, dtype=np.int).flatten()
  dL_dKdiag_small = np.array([dL_dKdiag[index==i].sum() for i in xrange(self.output_dim)])
  self.W.gradient = 2.*self.W*dL_dKdiag_small[:, None]
  self.kappa.gradient = dL_dKdiag_small
  \<close>
\<close>

definition update_gradients_diag :: "kern \<Rightarrow> real list \<Rightarrow> int list \<Rightarrow> kern result" where
  "update_gradients_diag k dL_dKdiag X =
     rbind (result_map
              (\<lambda>i. rbind (mask_vec dL_dKdiag (eq_mask X i)) (\<lambda>sel. Ok (sum_list sel)))
              [0..<output_dim k])
       (\<lambda>dL_dKdiag_small.
          rbind (scale_rows (W k) dL_dKdiag_small) (\<lambda>g.
            Ok (k\<lparr>W_gradient := g, kappa_gradient := dL_dKdiag_small\<rparr>)))"

subsection \<open>Construction\<close>

text \<open>
  \<open>__init__\<close>, with the matrix that \<open>np.random.randn(output_dim, rank)\<close> draws given
  by its entries \<open>randn i j\<close>. The result is what was printed and the object or the
  exception (an \<open>assert\<close> that fails raises AssertionError). The parameter objects
  that wrap \<open>W\<close> and \<open>kappa\<close> hold the values and one gradient slot each; the slots
  start at zero here, and no statement below depends on what they hold before a
  gradient method writes them.
\<close>

definition init ::
  "nat \<Rightarrow> nat \<Rightarrow> ndarray option \<Rightarrow> real list option \<Rightarrow> (nat \<Rightarrow> nat \<Rightarrow> real)
     \<Rightarrow> string list \<times> kern result" where
  "init od rk W0 kappa0 randn =
     (if rk > od then [rank_warning] else [],
      rbind (case W0 of
               None \<Rightarrow> Ok (mk od rk (\<lambda>i j. 0.5 * randn i j / sqrt (real rk)))
             | Some w \<Rightarrow> if (nrows w, ncols w) = (od, rk) then Ok w else Raises AssertionError)
        (\<lambda>w. rbind (case kappa0 of
                      None \<Rightarrow> Ok (map (\<lambda>i. 0.5 * 1) [0..<od])
                    | Some kp \<Rightarrow> if length kp = od then Ok kp else Raises AssertionError)
           (\<lambda>kp. Ok \<lparr>output_dim = od, rank = rk, W = w, kappa = kp, B = None,
                      W_gradient = zeros_like w, kappa_gradient = map (\<lambda>x. 0) kp\<rparr>)))"

subsection \<open>The statements of the specification, in its own words\<close>

text \<open>
  Index vectors with every entry in \<open>[0, output_dim)\<close>. The entries are positions in an
  array, hence below \<open>2\<^sup>6\<^sup>3\<close>, the bound of every dimension of a numpy array.
\<close>

definition in_range :: "nat \<Rightarrow> int list \<Rightarrow> bool" where
  "in_range od X \<longleftrightarrow> list_all (\<lambda>x. 0 \<le> x \<and> x < int od \<and> x < 2 ^ 63) X"

text \<open>An optional second index vector with every entry in \<open>[0, output_dim)\<close>.\<close>

definition in_range_opt :: "nat \<Rightarrow> int list option \<Rightarrow> bool" where
  "in_range_opt od X2 = (case X2 of None \<Rightarrow> True | Some Y \<Rightarrow> in_range od Y)"

text \<open>The second index vector that a call uses: \<open>X\<close> itself when \<open>X2\<close> is omitted.\<close>

definition second :: "int list \<Rightarrow> int list option \<Rightarrow> int list" where
  "second X X2 = (case X2 of None \<Rightarrow> X | Some Y \<Rightarrow> Y)"

text \<open>\<open>B = W W\<^sup>T + diag(kappa)\<close>, entry by entry.\<close>

definition B_formula :: "kern \<Rightarrow> ndarray" where
  "B_formula k = mk (output_dim k) (output_dim k)
      (\<lambda>a c. (\<Sum>j\<leftarrow>[0..<rank k]. entry (W k) a j * entry (W k) c j)
               + (if a = c then kappa k ! a else 0))"

text \<open>The quadratic form \<open>x\<^sup>T A x\<close> of a square matrix.\<close>

definition quad_form :: "ndarray \<Rightarrow> real list \<Rightarrow> real" where
  "quad_form A x = (\<Sum>a\<leftarrow>[0..<nrows A]. \<Sum>b\<leftarrow>[0..<ncols A]. x ! a * entry A a b * x ! b)"

text \<open>
  The gather as the specification defines it: the matrix of shape \<open>(n1, n2)\<close> with
  \<open>R[i,j] = B[X[i], X2[j]]\<close>.
\<close>

definition spec_K :: "ndarray \<Rightarrow> int list \<Rightarrow> int list \<Rightarrow> ndarray" where
  "spec_K b X X2 = mk (length X) (length X2) (\<lambda>i j. entry b (nat (X ! i)) (nat (X2 ! j)))"

text \<open>Wrap-around of a negative index: \<open>v\<close> reads position \<open>n + v\<close>.\<close>

definition wrap :: "nat \<Rightarrow> int \<Rightarrow> nat" where
  "wrap n v = (if v < 0 then nat (int n + v) else nat v)"

text \<open>Index vectors with every entry in \<open>[-output_dim, output_dim)\<close>.\<close>

definition in_wrap_range :: "nat \<Rightarrow> int list \<Rightarrow> bool" where
  "in_wrap_range od X \<longleftrightarrow> list_all (\<lambda>x. - int od \<le> x \<and> x < int od) X"

text \<open>Index vectors with an entry greater than or equal to \<open>output_dim\<close>.\<close>

definition has_large :: "nat \<Rightarrow> int list \<Rightarrow> bool" where
  "has_large od X \<longleftrightarrow> list_ex (\<lambda>x. int od \<le> x) X"

text \<open>
  A supplied \<open>W\<close> does not have shape \<open>(output_dim, rank)\<close>, or a supplied \<open>kappa\<close> does
  not have shape \<open>(output_dim,)\<close>.
\<close>

definition shape_mismatch :: "nat \<Rightarrow> nat \<Rightarrow> ndarray option \<Rightarrow> real list option \<Rightarrow> bool" where
  "shape_mismatch od rk W0 kappa0 \<longleftrightarrow>
     (case W0 of None \<Rightarrow> False | Some w \<Rightarrow> (nrows w, ncols w) \<noteq> (od, rk)) \<or>
     (case kappa0 of None \<Rightarrow> False | Some kp \<Rightarrow> length kp \<noteq> od)"

text \<open>
  The scatter-reduce as the specification defines it:
  \<open>small[a,b]\<close> is the sum of \<open>dL_dK[i,j]\<close> over all \<open>(i,j)\<close> with \<open>X[i]=a\<close>, \<open>X2[j]=b\<close>.
\<close>

definition spec_small :: "ndarray \<Rightarrow> int list \<Rightarrow> int list \<Rightarrow> nat \<Rightarrow> nat \<Rightarrow> real" where
  "spec_small dL_dK X X2 a b =
     (\<Sum>i\<leftarrow>[0..<length X]. \<Sum>j\<leftarrow>[0..<length X2].
        if X ! i = int a \<and> X2 ! j = int b then entry dL_dK i j else 0)"

text \<open>
  The gradients as the specification states them, from its \<open>small\<close>: the gradient of
  \<open>kappa\<close> is the diagonal of \<open>small\<close>, and row \<open>r\<close> of the gradient of \<open>W\<close> is
  \<open>\<Sum>\<^sub>c (small + small\<^sup>T)[r,c] \<cdot> W[c,:]\<close>.
\<close>

definition spec_dkappa :: "kern \<Rightarrow> ndarray \<Rightarrow> int list \<Rightarrow> int list \<Rightarrow> real list" where
  "spec_dkappa k dL_dK X X2 = map (\<lambda>a. spec_small dL_dK X X2 a a) [0..<output_dim k]"

definition spec_dW :: "kern \<Rightarrow> ndarray \<Rightarrow> int list \<Rightarrow> int list \<Rightarrow> ndarray" where
  "spec_dW k dL_dK X X2 = mk (output_dim k) (rank k)
     (\<lambda>r j. \<Sum>c\<leftarrow>[0..<output_dim k].
        (spec_small dL_dK X X2 r c + spec_small dL_dK X X2 c r) * entry (W k) c j)"

text \<open>The per-channel sums of the diagonal gradients: \<open>s[a]\<close> sums \<open>dL_dKdiag[i]\<close> over \<open>X[i]=a\<close>.\<close>

definition spec_s :: "real list \<Rightarrow> int list \<Rightarrow> nat \<Rightarrow> real" where
  "spec_s dL_dKdiag X a = (\<Sum>i\<leftarrow>[0..<length X]. if X ! i = int a then dL_dKdiag ! i else 0)"

subsection \<open>Auxiliary notions\<close>

text \<open>The coming call of \<open>weave.inline\<close> does not raise.\<close>

definition no_fault :: "env \<Rightarrow> bool" where
  "no_fault s \<longleftrightarrow> (case faults s of [] \<Rightarrow> True | f # fs \<Rightarrow> \<not> f)"

text \<open>The gradient of \<open>kappa\<close> that the code stores, depending on what \<open>np.diag\<close> returns.\<close>

definition stored_dkappa :: "env \<Rightarrow> kern \<Rightarrow> ndarray \<Rightarrow> int list \<Rightarrow> int list \<Rightarrow> real list" where
  "stored_dkappa s k dL_dK X X2 =
     (if diag_view s then map (\<lambda>a. 2 * spec_small dL_dK X X2 a a) [0..<output_dim k]
      else spec_dkappa k dL_dK X X2)"

text \<open>
  The effect of a list of assignments \<open>t[p] = v\<close>, and of a list of updates
  \<open>t[p] += v\<close>, carried out from left to right.
\<close>

definition apply_writes :: "(nat \<times> real) list \<Rightarrow> real list \<Rightarrow> real list" where
  "apply_writes ws t = fold (\<lambda>(p, v) t. t[p := v]) ws t"

definition apply_adds :: "(nat \<times> real) list \<Rightarrow> real list \<Rightarrow> real list" where
  "apply_adds ws t = fold (\<lambda>(p, v) t. t[p := t ! p + v]) ws t"

subsection \<open>Concrete inputs\<close>

text \<open>
  The scenario of the specification: \<open>output_dim = 3\<close>, \<open>rank = 1\<close>,
  \<open>W = [[1],[0],[-1]]\<close>, \<open>kappa = [0.1, 0.1, 0.1]\<close>, for which
  \<open>B = [[1.1, 0, -1], [0, 0.1, 0], [-1, 0, 1.1]]\<close>.
\<close>

definition ex_kern0 :: kern where
  "ex_kern0 = \<lparr>output_dim = 3, rank = 1, W = \<lparr>nrows = 3, ncols = 1, data = [1, 0, -1]\<rparr>,
      kappa = [1/10, 1/10, 1/10], B = None,
      W_gradient = \<lparr>nrows = 3, ncols = 1, data = [0, 0, 0]\<rparr>, kappa_gradient = [0, 0, 0]\<rparr>"

definition ex_B :: ndarray where
  "ex_B = \<lparr>nrows = 3, ncols = 3, data = [11/10, 0, -1, 0, 1/10, 0, -1, 0, 11/10]\<rparr>"

definition ex_kern :: kern where
  "ex_kern = ex_kern0\<lparr>B := Some ex_B\<rparr>"

text \<open>
  A kernel object whose attribute \<open>B\<close> has been overwritten with a matrix that is not
  symmetric, \<open>[[0, 1], [0, 0]]\<close>; \<open>parameters_changed\<close> never produces such a \<open>B\<close>.
\<close>

definition ex_kern_asym :: kern where
  "ex_kern_asym = \<lparr>output_dim = 2, rank = 1, W = \<lparr>nrows = 2, ncols = 1, data = [0, 0]\<rparr>,
      kappa = [0, 0], B = Some \<lparr>nrows = 2, ncols = 2, data = [0, 1, 0, 0]\<rparr>,
      W_gradient = \<lparr>nrows = 2, ncols = 1, data = [0, 0]\<rparr>, kappa_gradient = [0, 0]\<rparr>"

text \<open>An environment in which weave is enabled and works.\<close>

definition ex_env :: env where
  "ex_env = \<lparr>working = True, faults = [], junk = (\<lambda>p. 0), diag_view = True, printed = []\<rparr>"

text \<open>An environment in which weave is disabled: every call takes the numpy path.\<close>

definition ex_env_numpy :: env where
  "ex_env_numpy = \<lparr>working = False, faults = [], junk = (\<lambda>p. 0), diag_view = True, printed = []\<rparr>"

text \<open>An environment in which weave is enabled and every call of it fails.\<close>

definition ex_env_broken :: env where
  "ex_env_broken = \<lparr>working = True, faults = [True, True], junk = (\<lambda>p. 0), diag_view = True,
                     printed = []\<rparr>"

text \<open>The draw of \<open>np.random.randn\<close> used in the examples.\<close>

definition ex_randn :: "nat \<Rightarrow> nat \<Rightarrow> real" where
  "ex_randn i j = 1"

text \<open>A matrix of shape \<open>(3, 2)\<close>.\<close>

definition ex_W32 :: ndarray where
  "ex_W32 = \<lparr>nrows = 3, ncols = 2, data = [1, 0, 0, 1, 1, 1]\<rparr>"

text \<open>An upstream gradient with a single entry, 1.\<close>

definition ex_dL11 :: ndarray where
  "ex_dL11 = \<lparr>nrows = 1, ncols = 1, data = [1]\<rparr>"

text \<open>An upstream gradient of shape \<open>(3, 2)\<close>.\<close>

definition ex_dL32 :: ndarray where
  "ex_dL32 = \<lparr>nrows = 3, ncols = 2, data = [1, 2, 3, 4, 5, 6]\<rparr>"

section \<open>Arrays: basic facts\<close>

lemma flat_index_less: "i < r \<Longrightarrow> j < c \<Longrightarrow> i * c + j < r * (c::nat)"
proof -
  assume a: "i < r" "j < c"
  then have "i * c + j < i * c + c" by simp
  also have "\<dots> = Suc i * c" by simp
  also have "\<dots> \<le> r * c" using a(1) by (intro mult_le_mono1) simp
  finally show ?thesis .
qed

lemma length_concat_rows:
  "length (concat (map (\<lambda>i. map (f i) [0..<c]) [0..<r])) = r * c"
  by (induction r) simp_all

lemma nth_concat_rows:
  "i < r \<Longrightarrow> j < c \<Longrightarrow> concat (map (\<lambda>i. map (f i) [0..<c]) [0..<r]) ! (i * c + j) = f i j"
proof (induction r)
  case 0
  then show ?case by simp
next
  case (Suc r)
  show ?case
  proof (cases "i < r")
    case True
    then have "i * c + j < r * c"
      using Suc.prems(2) by (rule flat_index_less)
    with True Suc show ?thesis
      by (simp add: nth_append length_concat_rows)
  next
    case False
    with Suc.prems have "i = r" by simp
    then show ?thesis using Suc.prems
      by (simp add: nth_append length_concat_rows)
  qed
qed

lemma nrows_mk [simp]: "nrows (mk r c f) = r"
  by (simp add: mk_def)

lemma ncols_mk [simp]: "ncols (mk r c f) = c"
  by (simp add: mk_def)

lemma length_data_mk [simp]: "length (data (mk r c f)) = r * c"
  by (simp add: mk_def length_concat_rows)

lemma wf_arr_mk [simp]: "wf_arr (mk r c f)"
  by (simp add: wf_arr_def)

lemma entry_mk [simp]: "i < r \<Longrightarrow> j < c \<Longrightarrow> entry (mk r c f) i j = f i j"
  by (simp add: entry_def mk_def nth_concat_rows)

lemma mk_cong: "(\<And>i j. i < r \<Longrightarrow> j < c \<Longrightarrow> f i j = g i j) \<Longrightarrow> mk r c f = mk r c g"
  unfolding mk_def by (auto intro!: arg_cong[where f = concat])

lemma sum_list_upt: "(\<Sum>i\<leftarrow>[0..<n]. f i) = (\<Sum>i<n. (f i :: real))"
  by (simp add: interv_sum_list_conv_sum_set_nat atLeast0LessThan)

section \<open>The covariance matrix\<close>

lemma parameters_changed_eq:
  assumes "wf_kern k"
  shows "parameters_changed k = Ok (k\<lparr>B := Some (B_formula k)\<rparr>)"
proof -
  have "np_add (np_dot_T (W k)) (np_diag_matrix (kappa k)) = Ok (B_formula k)"
    using assms unfolding np_add_def np_dot_T_def np_diag_matrix_def B_formula_def wf_kern_def
    by (auto simp: bdim_def bat_def intro!: mk_cong)
  then show ?thesis by (simp add: parameters_changed_def rbind_def)
qed

lemma B_formula_shape [simp]:
  "nrows (B_formula k) = output_dim k" "ncols (B_formula k) = output_dim k"
  "wf_arr (B_formula k)"
  by (simp_all add: B_formula_def)

lemma B_formula_sym:
  "a < output_dim k \<Longrightarrow> c < output_dim k \<Longrightarrow> entry (B_formula k) a c = entry (B_formula k) c a"
  by (auto simp: B_formula_def mult.commute)

lemma B_formula_transpose: "transpose_arr (B_formula k) = B_formula k"
proof -
  have "transpose_arr (B_formula k)
      = mk (output_dim k) (output_dim k) (\<lambda>i j. entry (B_formula k) i j)"
    unfolding transpose_arr_def B_formula_shape by (rule mk_cong) (simp add: B_formula_sym)
  also have "\<dots> = B_formula k"
    unfolding B_formula_def by (rule mk_cong) simp
  finally show ?thesis .
qed

lemma gram_quad:
  fixes x :: "nat \<Rightarrow> real" and w :: "nat \<Rightarrow> nat \<Rightarrow> real"
  shows "(\<Sum>a<n. \<Sum>c<n. x a * (\<Sum>j<r. w a j * w c j) * x c) = (\<Sum>j<r. (\<Sum>a<n. x a * w a j)\<^sup>2)"
proof -
  have "(\<Sum>a<n. \<Sum>c<n. x a * (\<Sum>j<r. w a j * w c j) * x c)
      = (\<Sum>a<n. \<Sum>c<n. \<Sum>j<r. (x a * w a j) * (x c * w c j))"
    by (simp add: sum_distrib_left sum_distrib_right mult_ac)
  also have "\<dots> = (\<Sum>a<n. \<Sum>j<r. \<Sum>c<n. (x a * w a j) * (x c * w c j))"
    by (subst sum.swap[of _ "{..<r}"]) simp
  also have "\<dots> = (\<Sum>j<r. \<Sum>a<n. \<Sum>c<n. (x a * w a j) * (x c * w c j))"
    by (subst sum.swap) simp
  also have "\<dots> = (\<Sum>j<r. (\<Sum>a<n. x a * w a j)\<^sup>2)"
    by (simp add: power2_eq_square sum_product)
  finally show ?thesis .
qed

lemma quad_form_B:
  "quad_form (B_formula k) x =
     (\<Sum>j<rank k. (\<Sum>a<output_dim k. x ! a * entry (W k) a j)\<^sup>2)
   + (\<Sum>a<output_dim k. kappa k ! a * (x ! a)\<^sup>2)"
proof -
  let ?n = "output_dim k"
  have "quad_form (B_formula k) x =
     (\<Sum>a<?n. \<Sum>c<?n. x ! a * ((\<Sum>j<rank k. entry (W k) a j * entry (W k) c j)
                                + (if a = c then kappa k ! a else 0)) * x ! c)"
    by (simp add: quad_form_def B_formula_def sum_list_upt)
  also have "\<dots> = (\<Sum>a<?n. \<Sum>c<?n. x ! a * (\<Sum>j<rank k. entry (W k) a j * entry (W k) c j) * x ! c)
                 + (\<Sum>a<?n. \<Sum>c<?n. if a = c then kappa k ! a * (x ! a)\<^sup>2 else 0)"
    unfolding sum.distrib[symmetric]
    by (intro sum.cong refl) (simp add: algebra_simps power2_eq_square)
  also have "(\<Sum>a<?n. \<Sum>c<?n. if a = c then kappa k ! a * (x ! a)\<^sup>2 else 0)
           = (\<Sum>a<?n. kappa k ! a * (x ! a)\<^sup>2)"
    by (intro sum.cong refl) (simp add: sum.delta)
  finally show ?thesis by (simp add: gram_quad)
qed

lemma B_formula_psd:
  assumes "list_all (\<lambda>v. 0 \<le> v) (kappa k)" "length (kappa k) = output_dim k"
  shows "0 \<le> quad_form (B_formula k) x"
  unfolding quad_form_B using assms
  by (intro add_nonneg_nonneg sum_nonneg mult_nonneg_nonneg) (auto simp: list_all_length)

lemma wf_ex_kern0: "wf_kern ex_kern0"
  by (simp add: wf_kern_def ex_kern0_def wf_arr_def)

lemma B_formula_ex: "B_formula ex_kern0 = ex_B"
  by (simp add: B_formula_def ex_kern0_def ex_B_def mk_def entry_def upt_rec)

text \<open>
  C7: after \<open>parameters_changed\<close> the attribute \<open>B\<close> is \<open>W W\<^sup>T + diag(kappa)\<close>; this
  matrix equals its transpose, and when no entry of \<open>kappa\<close> is negative its quadratic
  form \<open>x\<^sup>T B x\<close> is non-negative at every vector \<open>x\<close>. The kernel has the shapes the
  constructor checks, and numbers are real numbers.
\<close>

theorem C7_parameters_changed:
  assumes "wf_kern k"
  shows "parameters_changed k = Ok (k\<lparr>B := Some (B_formula k)\<rparr>) \<and>
         transpose_arr (B_formula k) = B_formula k \<and>
         (list_all (\<lambda>v. 0 \<le> v) (kappa k) \<longrightarrow> (\<forall>x. 0 \<le> quad_form (B_formula k) x))"
  using assms parameters_changed_eq[OF assms] B_formula_transpose[of k] B_formula_psd[of k]
  by (simp add: wf_kern_def)

theorem C7_witness:
  "wf_kern ex_kern0 \<and> list_all (\<lambda>v. 0 \<le> v) (kappa ex_kern0) \<and>
   parameters_changed ex_kern0 = Ok ex_kern \<and>
   transpose_arr ex_B = ex_B \<and>
   (\<forall>x. 0 \<le> quad_form ex_B x)"
proof -
  have h: "list_all (\<lambda>v. 0 \<le> v) (kappa ex_kern0)"
    by (simp add: ex_kern0_def)
  show ?thesis
    using C7_parameters_changed[OF wf_ex_kern0] h wf_ex_kern0
    by (simp add: B_formula_ex ex_kern_def)
qed

section \<open>The loops of the inlined C code\<close>

lemma c_for_0 [simp]: "c_for 0 body s = Some s"
  by (simp add: c_for_def)

lemma c_for_Suc: "c_for (Suc n) body s = Option.bind (c_for n body s) (body n)"
  by (simp add: c_for_def)

lemma c_read_nat [simp]: "c_read a (int p) = (if p < length a then Some (a ! p) else None)"
  by (simp add: c_read_def)

lemma c_write_nat [simp]: "c_write a (int p) v = (if p < length a then Some (a[p := v]) else None)"
  by (simp add: c_write_def)

lemma length_apply_writes [simp]: "length (apply_writes ws t) = length t"
  unfolding apply_writes_def by (induction ws arbitrary: t) auto

lemma length_apply_adds [simp]: "length (apply_adds ws t) = length t"
  unfolding apply_adds_def by (induction ws arbitrary: t) auto

lemma apply_writes_append [simp]: "apply_writes (ws @ vs) t = apply_writes vs (apply_writes ws t)"
  by (simp add: apply_writes_def)

lemma apply_adds_append [simp]: "apply_adds (ws @ vs) t = apply_adds vs (apply_adds ws t)"
  by (simp add: apply_adds_def)

lemma apply_writes_Nil [simp]: "apply_writes [] t = t"
  by (simp add: apply_writes_def)

lemma apply_adds_Nil [simp]: "apply_adds [] t = t"
  by (simp add: apply_adds_def)

lemma apply_writes_Cons [simp]: "apply_writes ((p, v) # ws) t = apply_writes ws (t[p := v])"
  by (simp add: apply_writes_def)

lemma apply_adds_Cons [simp]: "apply_adds ((p, v) # ws) t = apply_adds ws (t[p := t ! p + v])"
  by (simp add: apply_adds_def)

lemma c_for_writes:
  assumes "\<And>i t. i < n \<Longrightarrow> length t = L \<Longrightarrow> body i t = Some (apply_writes (ws i) t)"
    and "length t = L"
  shows "c_for n body t = Some (apply_writes (concat (map ws [0..<n])) t)"
  using assms
proof (induction n)
  case 0
  then show ?case by simp
next
  case (Suc n)
  then have "c_for n body t = Some (apply_writes (concat (map ws [0..<n])) t)"
    by simp
  then show ?case using Suc.prems by (simp add: c_for_Suc)
qed

lemma c_for_adds:
  assumes "\<And>i t. i < n \<Longrightarrow> length t = L \<Longrightarrow> body i t = Some (apply_adds (ws i) t)"
    and "length t = L"
  shows "c_for n body t = Some (apply_adds (concat (map ws [0..<n])) t)"
  using assms
proof (induction n)
  case 0
  then show ?case by simp
next
  case (Suc n)
  then have "c_for n body t = Some (apply_adds (concat (map ws [0..<n])) t)"
    by simp
  then show ?case using Suc.prems by (simp add: c_for_Suc)
qed

lemma apply_writes_other:
  "\<forall>(p, v)\<in>set ws. p \<noteq> q \<Longrightarrow> apply_writes ws t ! q = t ! q"
  by (induction ws arbitrary: t) auto

lemma apply_writes_nth:
  assumes "q < length t" "(q, v) \<in> set ws" "\<forall>(p, v')\<in>set ws. p = q \<longrightarrow> v' = v"
  shows "apply_writes ws t ! q = v"
  using assms
proof (induction ws arbitrary: t)
  case Nil
  then show ?case by simp
next
  case (Cons w ws)
  obtain p u where w: "w = (p, u)" by (cases w)
  show ?case
  proof (cases "\<exists>v'. (q, v') \<in> set ws")
    case True
    then obtain v' where m: "(q, v') \<in> set ws" by blast
    with Cons.prems(3) have "v' = v" by auto
    with m Cons show ?thesis by (auto simp: w)
  next
    case False
    then have other: "\<forall>(p, v)\<in>set ws. p \<noteq> q" by auto
    from False Cons.prems(2) have "p = q" "u = v" by (auto simp: w)
    then show ?thesis using Cons.prems(1) by (simp add: w apply_writes_other[OF other])
  qed
qed

lemma apply_adds_nth:
  assumes "q < length t"
  shows "apply_adds ws t ! q = t ! q + (\<Sum>(p, v)\<leftarrow>ws. if p = q then v else 0)"
  using assms
proof (induction ws arbitrary: t)
  case Nil
  then show ?case by simp
next
  case (Cons w ws)
  obtain p u where w: "w = (p, u)" by (cases w)
  show ?case using Cons by (auto simp: w nth_list_update)
qed

lemma flat_index_inj:
  assumes "j < (N::nat)" "c < N" "i * N + j = a * N + c"
  shows "i = a \<and> j = c"
proof -
  have "(i * N + j) div N = i" "(i * N + j) mod N = j" using assms(1) by simp_all
  moreover have "(a * N + c) div N = a" "(a * N + c) mod N = c" using assms(2) by simp_all
  ultimately show ?thesis using assms(3) by metis
qed

lemma in_range_nth: "in_range od X \<Longrightarrow> i < length X \<Longrightarrow> 0 \<le> X ! i \<and> X ! i < int od"
  by (simp add: in_range_def list_all_length)

lemma in_range_nat: "in_range od X \<Longrightarrow> i < length X \<Longrightarrow> X ! i = int (nat (X ! i)) \<and> nat (X ! i) < od"
  using in_range_nth[of od X i] by auto

lemma in_concat_mapI: "x \<in> set xs \<Longrightarrow> y \<in> set (f x) \<Longrightarrow> y \<in> set (concat (map f xs))"
  by auto

lemma apply_writes_grid:
  assumes t: "length t = N * M"
    and cover: "\<And>j i. j < N \<Longrightarrow> i < M \<Longrightarrow> (j * M + i, f j i) \<in> set ws"
    and only: "\<And>p v. (p, v) \<in> set ws \<Longrightarrow> \<exists>j i. j < N \<and> i < M \<and> p = j * M + i \<and> v = f j i"
  shows "apply_writes ws t = data (mk N M f)"
proof (rule nth_equalityI)
  show "length (apply_writes ws t) = length (data (mk N M f))" by (simp add: t)
next
  fix q assume "q < length (apply_writes ws t)"
  then have q: "q < N * M" by (simp add: t)
  then have M: "0 < M" by (cases M) auto
  define j i where "j = q div M" and "i = q mod M"
  have ji: "j < N" "i < M" "q = j * M + i"
    using q M by (simp_all add: j_def i_def less_mult_imp_div_less)
  have uniq: "\<forall>(p, v')\<in>set ws. p = q \<longrightarrow> v' = f j i"
  proof safe
    fix v' assume "(q, v') \<in> set ws"
    from only[OF this] obtain j' i' where h: "j' < N" "i' < M" "q = j' * M + i'" "v' = f j' i'"
      by blast
    from flat_index_inj[of i' M i j' j] h ji have "j' = j \<and> i' = i" by simp
    with h show "v' = f j i" by simp
  qed
  have "apply_writes ws t ! q = f j i"
    by (rule apply_writes_nth) (use q t cover[OF ji(1,2)] ji uniq in simp_all)
  also have "\<dots> = data (mk N M f) ! q"
    using ji by (simp add: mk_def nth_concat_rows)
  finally show "apply_writes ws t ! q = data (mk N M f) ! q" .
qed

lemma code2_inner:
  assumes X: "in_range od X" and Y: "in_range od Y" and Bd: "length Bd = od * od"
    and i: "i < length Y" and t: "length t = length X * length Y"
  shows "c_for (length X) (\<lambda>j t. do {
             v \<leftarrow> c_read Bd (int od * X ! j + Y ! i);
             c_write t (int i + int j * int (length Y)) v
           }) t
       = Some (apply_writes (map (\<lambda>j. (j * length Y + i, Bd ! (nat (X ! j) * od + nat (Y ! i)))) [0..<length X]) t)"
proof -
  have step: "do { v \<leftarrow> c_read Bd (int od * X ! j + Y ! i);
                 c_write u (int i + int j * int (length Y)) v }
             = Some (apply_writes [(j * length Y + i, Bd ! (nat (X ! j) * od + nat (Y ! i)))] u)"
    if j: "j < length X" and u: "length u = length X * length Y" for j u
  proof -
    obtain x where x: "X ! j = int x" "x < od" "nat (X ! j) = x"
      using in_range_nat[OF X j] by metis
    obtain y where y: "Y ! i = int y" "y < od" "nat (Y ! i) = y"
      using in_range_nat[OF Y i] by metis
    have p1: "int od * X ! j + Y ! i = int (x * od + y)" by (simp add: x y)
    have p2: "int i + int j * int (length Y) = int (j * length Y + i)" by simp
    have b1: "x * od + y < length Bd" using x y Bd flat_index_less by simp
    have b2: "j * length Y + i < length u" using j i u flat_index_less by simp
    show ?thesis unfolding p1 p2 using b1 b2 by (simp add: x y del: of_nat_add of_nat_mult)
  qed
  have "c_for (length X) (\<lambda>j t. do {
             v \<leftarrow> c_read Bd (int od * X ! j + Y ! i);
             c_write t (int i + int j * int (length Y)) v
           }) t
      = Some (apply_writes (concat (map (\<lambda>j. [(j * length Y + i, Bd ! (nat (X ! j) * od + nat (Y ! i)))]) [0..<length X])) t)"
    by (rule c_for_writes[where L = "length X * length Y"]) (simp_all add: step t)
  also have "concat (map (\<lambda>j. [(j * length Y + i, Bd ! (nat (X ! j) * od + nat (Y ! i)))]) [0..<length X])
     = map (\<lambda>j. (j * length Y + i, Bd ! (nat (X ! j) * od + nat (Y ! i)))) [0..<length X]"
    by (induction "length X") (simp_all add: concat_map_singleton)
  finally show ?thesis .
qed

lemma K_weave_code2_eq:
  assumes X: "in_range od X" and Y: "in_range od Y" and Bd: "length Bd = od * od"
    and t: "length t = length X * length Y"
  shows "K_weave_code2 Bd X Y (length X) (length Y) od t
       = Some (data (mk (length X) (length Y) (\<lambda>j i. Bd ! (nat (X ! j) * od + nat (Y ! i)))))"
proof -
  let ?N = "length X" and ?M = "length Y"
  let ?f = "\<lambda>j i. Bd ! (nat (X ! j) * od + nat (Y ! i))"
  let ?ws = "concat (map (\<lambda>i. map (\<lambda>j. (j * ?M + i, ?f j i)) [0..<?N]) [0..<?M])"
  have "K_weave_code2 Bd X Y ?N ?M od t = Some (apply_writes ?ws t)"
    unfolding K_weave_code2_def
    by (rule c_for_writes[where L = "?N * ?M"]) (simp_all add: code2_inner[OF X Y Bd] t)
  also have "apply_writes ?ws t = data (mk ?N ?M ?f)"
  proof (rule apply_writes_grid)
    show "length t = ?N * ?M" by (rule t)
  next
    fix j i assume "j < ?N" "i < ?M"
    then show "(j * ?M + i, ?f j i) \<in> set ?ws" by (auto intro!: bexI[of _ i])
  next
    fix p v assume "(p, v) \<in> set ?ws"
    then show "\<exists>j i. j < ?N \<and> i < ?M \<and> p = j * ?M + i \<and> v = ?f j i" by auto
  qed
  finally show ?thesis .
qed

lemma in_concat_mapD: "y \<in> set (concat (map f xs)) \<Longrightarrow> \<exists>x\<in>set xs. y \<in> set (f x)"
  by auto

lemma code1_step:
  assumes X: "in_range od X" and Bd: "length Bd = od * od"
    and i: "i < length X" and j: "j < length X" and u: "length u = length X * length X"
  shows "do { v \<leftarrow> c_read Bd (X ! i + int od * X ! j);
              t \<leftarrow> c_write u (int j + int i * int (length X)) v;
              w \<leftarrow> c_read t (int j + int i * int (length X));
              c_write t (int i + int j * int (length X)) w }
       = Some (apply_writes [(i * length X + j, Bd ! (nat (X ! j) * od + nat (X ! i))),
                             (j * length X + i, Bd ! (nat (X ! j) * od + nat (X ! i)))] u)"
proof -
  obtain x where x: "X ! i = int x" "x < od" "nat (X ! i) = x"
    using in_range_nat[OF X i] by metis
  obtain y where y: "X ! j = int y" "y < od" "nat (X ! j) = y"
    using in_range_nat[OF X j] by metis
  have p1: "X ! i + int od * X ! j = int (y * od + x)" by (simp add: x y)
  have p2: "int j + int i * int (length X) = int (i * length X + j)" by simp
  have p3: "int i + int j * int (length X) = int (j * length X + i)" by simp
  have b1: "y * od + x < length Bd" using x y Bd flat_index_less by simp
  have b2: "i * length X + j < length u" using j i u flat_index_less by simp
  have b3: "j * length X + i < length u" using j i u flat_index_less by simp
  show ?thesis unfolding p1 p2 p3 using b1 b2 b3
    by (simp add: x y del: of_nat_add of_nat_mult)
qed

lemma code1_body:
  assumes X: "in_range od X" and Bd: "length Bd = od * od"
    and i: "i < length X" and u: "length u = length X * length X"
  shows "do { v \<leftarrow> c_read Bd (X ! i + int od * X ! i);
              t \<leftarrow> c_write u (int i + int i * int (length X)) v;
              c_for i (\<lambda>j t. do {
                 v \<leftarrow> c_read Bd (X ! i + int od * X ! j);
                 t \<leftarrow> c_write t (int j + int i * int (length X)) v;
                 w \<leftarrow> c_read t (int j + int i * int (length X));
                 c_write t (int i + int j * int (length X)) w }) t }
       = Some (apply_writes
           ((i * length X + i, Bd ! (nat (X ! i) * od + nat (X ! i))) #
            concat (map (\<lambda>j. [(i * length X + j, Bd ! (nat (X ! j) * od + nat (X ! i))),
                               (j * length X + i, Bd ! (nat (X ! j) * od + nat (X ! i)))]) [0..<i])) u)"
proof -
  obtain x where x: "X ! i = int x" "x < od" "nat (X ! i) = x"
    using in_range_nat[OF X i] by metis
  have p1: "X ! i + int od * X ! i = int (x * od + x)" by (simp add: x)
  have p2: "int i + int i * int (length X) = int (i * length X + i)" by simp
  have b1: "x * od + x < length Bd" using x Bd flat_index_less by simp
  have b2: "i * length X + i < length u" using i u flat_index_less by simp
  have inner: "c_for i (\<lambda>j t. do {
                 v \<leftarrow> c_read Bd (X ! i + int od * X ! j);
                 t \<leftarrow> c_write t (int j + int i * int (length X)) v;
                 w \<leftarrow> c_read t (int j + int i * int (length X));
                 c_write t (int i + int j * int (length X)) w }) t
        = Some (apply_writes (concat (map (\<lambda>j. [(i * length X + j, Bd ! (nat (X ! j) * od + nat (X ! i))),
                               (j * length X + i, Bd ! (nat (X ! j) * od + nat (X ! i)))]) [0..<i])) t)"
    if "length t = length X * length X" for t
    by (rule c_for_writes[where L = "length X * length X"])
       (use that i in \<open>simp_all add: code1_step[OF X Bd i]\<close>)
  have r: "c_read Bd (X ! i + int od * X ! i) = Some (Bd ! (nat (X ! i) * od + nat (X ! i)))"
    unfolding p1 using b1 by (simp add: x del: of_nat_add of_nat_mult)
  have w: "c_write u (int i + int i * int (length X)) v = Some (u[i * length X + i := v])" for v
    unfolding p2 using b2 by (simp del: of_nat_add of_nat_mult)
  show ?thesis
    by (simp add: r w inner u)
qed

lemma K_weave_code1_eq:
  assumes X: "in_range od X" and Bd: "length Bd = od * od"
    and t: "length t = length X * length X"
  shows "K_weave_code1 Bd X (length X) od t
       = Some (data (mk (length X) (length X)
            (\<lambda>a c. Bd ! (nat (X ! min a c) * od + nat (X ! max a c)))))"
proof -
  let ?N = "length X"
  let ?g = "\<lambda>a c. Bd ! (nat (X ! min a c) * od + nat (X ! max a c))"
  let ?v = "\<lambda>i j. Bd ! (nat (X ! j) * od + nat (X ! i))"
  let ?w = "\<lambda>i. (i * ?N + i, ?v i i) # concat (map (\<lambda>j. [(i * ?N + j, ?v i j), (j * ?N + i, ?v i j)]) [0..<i])"
  let ?ws = "concat (map ?w [0..<?N])"
  have "K_weave_code1 Bd X ?N od t = Some (apply_writes ?ws t)"
    unfolding K_weave_code1_def
    by (rule c_for_writes[where L = "?N * ?N"]) (simp_all add: code1_body[OF X Bd] t)
  also have "apply_writes ?ws t = data (mk ?N ?N ?g)"
  proof (rule apply_writes_grid)
    show "length t = ?N * ?N" by (rule t)
  next
    fix a c assume ac: "a < ?N" "c < ?N"
    consider "a = c" | "c < a" | "a < c" by linarith
    then show "(a * ?N + c, ?g a c) \<in> set ?ws"
    proof cases
      case 1
      then have "(a * ?N + c, ?g a c) \<in> set (?w a)" by simp
      then show ?thesis using ac by (intro in_concat_mapI[of a]) simp_all
    next
      case 2
      then have g: "?g a c = ?v a c" by (simp add: min_def max_def)
      have "(a * ?N + c, ?v a c) \<in> set (concat (map (\<lambda>j. [(a * ?N + j, ?v a j), (j * ?N + a, ?v a j)]) [0..<a]))"
        using 2 by (intro in_concat_mapI[of c]) simp_all
      then have "(a * ?N + c, ?g a c) \<in> set (?w a)" unfolding g by simp
      then show ?thesis using ac by (intro in_concat_mapI[of a]) simp_all
    next
      case 3
      then have g: "?g a c = ?v c a" by (simp add: min_def max_def)
      have "(a * ?N + c, ?v c a) \<in> set (concat (map (\<lambda>j. [(c * ?N + j, ?v c j), (j * ?N + c, ?v c j)]) [0..<c]))"
        using 3 by (intro in_concat_mapI[of a]) simp_all
      then have "(a * ?N + c, ?g a c) \<in> set (?w c)" unfolding g by simp
      then show ?thesis using ac by (intro in_concat_mapI[of c]) simp_all
    qed
  next
    fix p v assume "(p, v) \<in> set ?ws"
    from in_concat_mapD[OF this] obtain i where i0: "i \<in> set [0..<?N]" "(p, v) \<in> set (?w i)"
      by blast
    then have i: "i < ?N" "(p, v) \<in> set (?w i)" by simp_all
    from i(2) have "(p = i * ?N + i \<and> v = ?v i i)
        \<or> (\<exists>j<i. (p = i * ?N + j \<or> p = j * ?N + i) \<and> v = ?v i j)"
      by auto
    then show "\<exists>a c. a < ?N \<and> c < ?N \<and> p = a * ?N + c \<and> v = ?g a c"
    proof (elim disjE exE conjE)
      assume "p = i * ?N + i" "v = ?v i i"
      then show ?thesis using i by (intro exI[of _ i]) auto
    next
      fix j assume "j < i" "p = i * ?N + j" "v = ?v i j"
      then show ?thesis using i by (intro exI[of _ i] exI[of _ j]) (auto simp: min_def max_def)
    next
      fix j assume "j < i" "p = j * ?N + i" "v = ?v i j"
      then show ?thesis using i by (intro exI[of _ j] exI[of _ i]) (auto simp: min_def max_def)
    qed
  qed
  finally show ?thesis .
qed

section \<open>Kernel evaluation\<close>

lemma rbind_simps [simp]:
  "rbind (Ok v) f = f v" "rbind (Raises e) f = Raises e" "rbind Undefined f = Undefined"
  by (simp_all add: rbind_def)

lemma np_index_in_range [simp]: "0 \<le> v \<Longrightarrow> v < int n \<Longrightarrow> np_index n v = Some (nat v)"
  by (simp add: np_index_def)

lemma asarray_int_fits: "fits_long X \<Longrightarrow> asarray_int X = Ok X"
  by (simp add: asarray_int_def)

lemma in_range_fits: "in_range od X \<Longrightarrow> fits_long X"
  by (auto simp: in_range_def fits_long_def list_all_iff)

lemma asarray_int_in_range: "in_range od X \<Longrightarrow> asarray_int X = Ok X"
  by (rule asarray_int_fits) (rule in_range_fits)

lemma asarray_int_Nil [simp]: "asarray_int [] = Ok []"
  by (simp add: asarray_int_def fits_long_def)

lemma K_numpy_converted:
  assumes "asarray_int X = Ok index" "asarray_int Y = Ok index2" "B k = Some b"
  shows "K_numpy k X None = fancy2 b index index"
    and "K_numpy k X (Some Y) = fancy2 b index index2"
  using assms by (simp_all add: K_numpy_def)

lemma Kdiag_converted:
  assumes "asarray_int X = Ok index" "B k = Some b"
  shows "Kdiag k X = fancy1 (np_diag b) index"
  using assms by (simp add: Kdiag_def)

lemma fancy2_in_range:
  assumes "in_range (nrows A) X" "in_range (ncols A) Y"
  shows "fancy2 A X Y = Ok (spec_K A X Y)"
proof -
  have a: "np_index (nrows A) r \<noteq> None" if "r \<in> set X" for r
    using assms(1) that by (auto simp: in_range_def list_all_iff)
  have b: "np_index (ncols A) c \<noteq> None" if "c \<in> set Y" for c
    using assms(2) that by (auto simp: in_range_def list_all_iff)
  have c: "mk (length X) (length Y) f = spec_K A X Y"
    if "\<And>i j. i < length X \<Longrightarrow> j < length Y \<Longrightarrow> f i j = entry A (nat (X ! i)) (nat (Y ! j))" for f
    unfolding spec_K_def by (rule mk_cong) (rule that)
  show ?thesis
  proof (cases "length X * length Y = 0")
    case True
    then have "mk (length X) (length Y) (\<lambda>i j. 0) = spec_K A X Y"
      by (intro c) auto
    with True show ?thesis by (simp add: fancy2_def)
  next
    case False
    have "mk (length X) (length Y)
            (\<lambda>i j. entry A (the (np_index (nrows A) (X ! i))) (the (np_index (ncols A) (Y ! j))))
          = spec_K A X Y"
      using in_range_nth[OF assms(1)] in_range_nth[OF assms(2)] by (intro c) simp
    with False a b show ?thesis by (auto simp: fancy2_def)
  qed
qed

lemma weave_inline_ok:
  "no_fault s \<Longrightarrow> weave_inline s (Some d) = (s\<lparr>faults := tl (faults s)\<rparr>, Ok d)"
  by (auto simp: weave_inline_def no_fault_def split: list.splits)

lemma weave_inline_fault:
  "\<not> no_fault s \<Longrightarrow> weave_inline s c = (s\<lparr>faults := tl (faults s)\<rparr>, Raises WeaveError)"
  by (auto simp: weave_inline_def no_fault_def split: list.splits)

lemma K_weave_two:
  assumes b: "B k = Some b" "nrows b = output_dim k" "ncols b = output_dim k" "wf_arr b"
    and X: "in_range (output_dim k) X" and Y: "in_range (output_dim k) Y" and s: "no_fault s"
  shows "K_weave s k X (Some Y) = (s\<lparr>faults := tl (faults s)\<rparr>, Ok (spec_K b X Y))"
proof -
  have len: "length (data b) = output_dim k * output_dim k"
    using b by (simp add: wf_arr_def)
  have "K_weave_code2 (data b) X Y (length X) (length Y) (output_dim k)
          (data (np_empty s (length X) (length Y)))
      = Some (data (mk (length X) (length Y)
           (\<lambda>j i. data b ! (nat (X ! j) * output_dim k + nat (Y ! i)))))"
    by (rule K_weave_code2_eq[OF X Y len]) (simp add: np_empty_def)
  moreover have "mk (length X) (length Y) (\<lambda>j i. data b ! (nat (X ! j) * output_dim k + nat (Y ! i)))
      = spec_K b X Y"
    by (simp add: spec_K_def entry_def b)
  ultimately show ?thesis
    using b(1) by (simp add: K_weave_def weave_inline_ok[OF s] np_empty_def mk_def)
qed

lemma K_weave_one:
  assumes b: "B k = Some b" "nrows b = output_dim k" "ncols b = output_dim k" "wf_arr b"
    and sym: "\<And>x y. x < output_dim k \<Longrightarrow> y < output_dim k \<Longrightarrow> entry b x y = entry b y x"
    and X: "in_range (output_dim k) X" and s: "no_fault s"
  shows "K_weave s k X None = (s\<lparr>faults := tl (faults s)\<rparr>, Ok (spec_K b X X))"
proof -
  have len: "length (data b) = output_dim k * output_dim k"
    using b by (simp add: wf_arr_def)
  have "K_weave_code1 (data b) X (length X) (output_dim k)
          (data (np_empty s (length X) (length X)))
      = Some (data (mk (length X) (length X)
           (\<lambda>a c. data b ! (nat (X ! min a c) * output_dim k + nat (X ! max a c)))))"
    by (rule K_weave_code1_eq[OF X len]) (simp add: np_empty_def)
  moreover have "mk (length X) (length X)
        (\<lambda>a c. data b ! (nat (X ! min a c) * output_dim k + nat (X ! max a c)))
      = spec_K b X X"
    unfolding spec_K_def
  proof (rule mk_cong)
    fix i j assume ij: "i < length X" "j < length X"
    have r: "nat (X ! i) < output_dim k" "nat (X ! j) < output_dim k"
      using in_range_nat[OF X] ij by simp_all
    show "data b ! (nat (X ! min i j) * output_dim k + nat (X ! max i j))
        = entry b (nat (X ! i)) (nat (X ! j))"
      using sym[OF r] by (cases "i \<le> j") (simp_all add: min_def max_def entry_def b)
  qed
  ultimately show ?thesis
    using b(1) by (simp add: K_weave_def weave_inline_ok[OF s] np_empty_def mk_def)
qed

lemma parameters_changed_fields:
  assumes "wf_kern k0" "parameters_changed k0 = Ok k"
  shows "B k = Some (B_formula k0)" "output_dim k = output_dim k0" "W k = W k0"
    "kappa k = kappa k0" "rank k = rank k0" "wf_kern k"
  using assms parameters_changed_eq[OF assms(1)] by (auto simp: wf_kern_def)

lemma K_numpy_in_range:
  assumes "B k = Some b" "nrows b = output_dim k" "ncols b = output_dim k"
    and "in_range (output_dim k) X"
  shows "K_numpy k X None = Ok (spec_K b X X)"
    and "in_range (output_dim k) Y \<Longrightarrow> K_numpy k X (Some Y) = Ok (spec_K b X Y)"
proof -
  show "K_numpy k X None = Ok (spec_K b X X)"
    using assms K_numpy_converted(1)[OF asarray_int_in_range[OF assms(4)] asarray_int_Nil assms(1)]
    by (simp add: fancy2_in_range)
  show "K_numpy k X (Some Y) = Ok (spec_K b X Y)" if Y: "in_range (output_dim k) Y"
    using assms Y
      K_numpy_converted(2)[OF asarray_int_in_range[OF assms(4)] asarray_int_in_range[OF Y] assms(1)]
    by (simp add: fancy2_in_range)
qed

lemma K_weave_eq_numpy:
  assumes wf: "wf_kern k0" and pc: "parameters_changed k0 = Ok k"
    and X: "in_range (output_dim k) X"
    and X2: "case X2 of None \<Rightarrow> True | Some Y \<Rightarrow> in_range (output_dim k) Y"
    and s: "no_fault s"
  shows "K_weave s k X X2 = (s\<lparr>faults := tl (faults s)\<rparr>, K_numpy k X X2)"
proof -
  note f = parameters_changed_fields[OF wf pc]
  have b: "B k = Some (B_formula k0)" "nrows (B_formula k0) = output_dim k"
    "ncols (B_formula k0) = output_dim k" "wf_arr (B_formula k0)"
    using f by simp_all
  have sym: "entry (B_formula k0) x y = entry (B_formula k0) y x"
    if "x < output_dim k" "y < output_dim k" for x y
    using that f(2) by (simp add: B_formula_sym)
  show ?thesis
  proof (cases X2)
    case None
    then show ?thesis
      using K_weave_one[OF b sym X s] K_numpy_in_range(1)[OF b(1,2,3) X] by simp
  next
    case (Some Y)
    then have Y: "in_range (output_dim k) Y" using X2 by simp
    show ?thesis
      using K_weave_two[OF b X Y s] K_numpy_in_range(2)[OF b(1,2,3) X Y] Some by simp
  qed
qed

lemma K_weave_fault:
  assumes "B k = Some b" "\<not> no_fault s"
  shows "K_weave s k X X2 = (s\<lparr>faults := tl (faults s)\<rparr>, Raises WeaveError)"
  using assms by (cases X2) (simp_all add: K_weave_def weave_inline_fault)

lemma K_eq_numpy:
  assumes wf: "wf_kern k0" and pc: "parameters_changed k0 = Ok k"
    and X: "in_range (output_dim k) X"
    and X2: "case X2 of None \<Rightarrow> True | Some Y \<Rightarrow> in_range (output_dim k) Y"
  shows "snd (K s k X X2) = K_numpy k X X2"
proof (cases "working s")
  case False
  then show ?thesis by (simp add: K_def)
next
  case True
  note f = parameters_changed_fields[OF wf pc]
  obtain R where R: "K_numpy k X X2 = Ok R"
    using K_numpy_in_range[OF f(1) _ _ X] X2 f(2) by (cases X2) auto
  show ?thesis
  proof (cases "no_fault s")
    case t: True
    show ?thesis using True K_weave_eq_numpy[OF wf pc X X2 t] R by (simp add: K_def)
  next
    case f2: False
    show ?thesis using True K_weave_fault[OF f(1) f2] by (simp add: K_def)
  qed
qed

lemma parameters_changed_ex: "parameters_changed ex_kern0 = Ok ex_kern"
  using parameters_changed_eq[OF wf_ex_kern0] by (simp add: B_formula_ex ex_kern_def)

text \<open>
  C5: on index vectors with entries in \<open>[0, output_dim)\<close> and the matrix \<open>B\<close> that
  \<open>parameters_changed\<close> computed, a call of \<open>_K_weave\<close> that does not raise returns the
  matrix that \<open>_K_numpy\<close> returns, with \<open>X2\<close> omitted and with \<open>X2\<close> given; this matrix
  is the gather \<open>R[i,j] = B[X[i], X2[j]]\<close>.
\<close>

theorem C5_K_weave_equals_K_numpy:
  assumes "wf_kern k0" and "parameters_changed k0 = Ok k"
    and "in_range (output_dim k) X" and "in_range_opt (output_dim k) X2"
    and "no_fault s"
  shows "snd (K_weave s k X X2) = K_numpy k X X2 \<and>
         K_numpy k X X2 = Ok (spec_K (B_formula k0) X (second X X2))"
proof -
  have X2: "case X2 of None \<Rightarrow> True | Some Y \<Rightarrow> in_range (output_dim k) Y"
    using assms(4) by (simp add: in_range_opt_def)
  note f = parameters_changed_fields[OF assms(1,2)]
  have "K_numpy k X X2 = Ok (spec_K (B_formula k0) X (second X X2))"
    using K_numpy_in_range[OF f(1) _ _ assms(3)] X2 f(2)
    by (cases X2) (simp_all add: second_def)
  then show ?thesis
    using K_weave_eq_numpy[OF assms(1,2,3) X2 assms(5)] by simp
qed

lemma spec_K_ex1: "spec_K ex_B [0, 1, 2] [0, 1, 2] = ex_B"
  by (simp add: spec_K_def ex_B_def mk_def entry_def upt_rec)

lemma spec_K_ex2:
  "spec_K ex_B [0, 1, 2] [2, 0] = \<lparr>nrows = 3, ncols = 2, data = [-1, 11/10, 0, 0, 11/10, -1]\<rparr>"
  by (simp add: spec_K_def ex_B_def mk_def entry_def upt_rec)

theorem C5_witness:
  "wf_kern ex_kern0 \<and> parameters_changed ex_kern0 = Ok ex_kern \<and>
   in_range (output_dim ex_kern) [0, 1, 2] \<and> in_range_opt (output_dim ex_kern) None \<and>
   in_range_opt (output_dim ex_kern) (Some [2, 0]) \<and> no_fault ex_env \<and>
   snd (K_weave ex_env ex_kern [0, 1, 2] None) = K_numpy ex_kern [0, 1, 2] None \<and>
   K_numpy ex_kern [0, 1, 2] None = Ok ex_B \<and>
   snd (K_weave ex_env ex_kern [0, 1, 2] (Some [2, 0])) = K_numpy ex_kern [0, 1, 2] (Some [2, 0]) \<and>
   K_numpy ex_kern [0, 1, 2] (Some [2, 0])
     = Ok \<lparr>nrows = 3, ncols = 2, data = [-1, 11/10, 0, 0, 11/10, -1]\<rparr>"
proof -
  have od: "output_dim ex_kern = 3" by (simp add: ex_kern_def ex_kern0_def)
  have h1: "in_range (output_dim ex_kern) [0, 1, 2]" by (simp add: od in_range_def)
  have h2: "in_range_opt (output_dim ex_kern) None" by (simp add: in_range_opt_def)
  have h3: "in_range_opt (output_dim ex_kern) (Some [2, 0])"
    by (simp add: od in_range_opt_def in_range_def)
  have h4: "no_fault ex_env" by (simp add: no_fault_def ex_env_def)
  show ?thesis
    using C5_K_weave_equals_K_numpy[OF wf_ex_kern0 parameters_changed_ex h1 h2 h4]
      C5_K_weave_equals_K_numpy[OF wf_ex_kern0 parameters_changed_ex h1 h3 h4]
      wf_ex_kern0 parameters_changed_ex h1 h2 h3 h4
    by (simp add: B_formula_ex second_def spec_K_ex1 spec_K_ex2)
qed

lemma spec_K_shape [simp]:
  "nrows (spec_K b X Y) = length X" "ncols (spec_K b X Y) = length Y" "wf_arr (spec_K b X Y)"
  by (simp_all add: spec_K_def)

lemma spec_K_entry:
  "i < length X \<Longrightarrow> j < length Y \<Longrightarrow> entry (spec_K b X Y) i j = entry b (nat (X ! i)) (nat (Y ! j))"
  by (simp add: spec_K_def)

lemma K_result:
  assumes wf: "wf_kern k0" and pc: "parameters_changed k0 = Ok k"
    and X: "in_range (output_dim k) X" and X2: "in_range_opt (output_dim k) X2"
  shows "snd (K s k X X2) = Ok (spec_K (B_formula k0) X (second X X2))"
proof -
  have X2': "case X2 of None \<Rightarrow> True | Some Y \<Rightarrow> in_range (output_dim k) Y"
    using X2 by (simp add: in_range_opt_def)
  note f = parameters_changed_fields[OF wf pc]
  have "K_numpy k X X2 = Ok (spec_K (B_formula k0) X (second X X2))"
    using K_numpy_in_range[OF f(1) _ _ X] X2' f(2)
    by (cases X2) (simp_all add: second_def)
  then show ?thesis using K_eq_numpy[OF wf pc X X2'] by simp
qed

text \<open>
  C3: for index vectors \<open>X\<close> and \<open>X2\<close> with entries in \<open>[0, output_dim)\<close> and the matrix
  \<open>B\<close> that \<open>parameters_changed\<close> computed, \<open>K(X, X2)\<close> returns a matrix of shape
  \<open>(n1, n2)\<close> with \<open>R[i,j] = B[X[i], X2[j]]\<close>; \<open>K(X)\<close> returns a matrix of shape
  \<open>(n1, n1)\<close> that equals \<open>K(X, X)\<close>; and \<open>K(X, X2)[i,j] = K(X2, X)[j,i]\<close>. This holds
  in every environment, whichever path answers.
\<close>

theorem C3_K_gather:
  assumes "wf_kern k0" and "parameters_changed k0 = Ok k"
    and "in_range (output_dim k) X" and "in_range (output_dim k) Y"
  shows "snd (K s k X (Some Y)) = Ok (spec_K (B_formula k0) X Y) \<and>
         nrows (spec_K (B_formula k0) X Y) = length X \<and>
         ncols (spec_K (B_formula k0) X Y) = length Y \<and>
         (\<forall>i<length X. \<forall>j<length Y.
            entry (spec_K (B_formula k0) X Y) i j = entry (B_formula k0) (nat (X ! i)) (nat (Y ! j))) \<and>
         snd (K s1 k X None) = Ok (spec_K (B_formula k0) X X) \<and>
         snd (K s2 k X (Some X)) = Ok (spec_K (B_formula k0) X X) \<and>
         snd (K s3 k Y (Some X)) = Ok (spec_K (B_formula k0) Y X) \<and>
         (\<forall>i<length X. \<forall>j<length Y.
            entry (spec_K (B_formula k0) X Y) i j = entry (spec_K (B_formula k0) Y X) j i)"
proof -
  note f = parameters_changed_fields[OF assms(1,2)]
  let ?b = "B_formula k0"
  have o: "in_range_opt (output_dim k) (Some Y)" "in_range_opt (output_dim k) None"
    "in_range_opt (output_dim k) (Some X)"
    using assms(3,4) by (simp_all add: in_range_opt_def)
  have 1: "snd (K s k X (Some Y)) = Ok (spec_K ?b X Y)"
    using K_result[OF assms(1,2,3) o(1)] by (simp add: second_def)
  have 2: "snd (K s1 k X None) = Ok (spec_K ?b X X)"
    using K_result[OF assms(1,2,3) o(2)] by (simp add: second_def)
  have 3: "snd (K s2 k X (Some X)) = Ok (spec_K ?b X X)"
    using K_result[OF assms(1,2,3) o(3)] by (simp add: second_def)
  have 4: "snd (K s3 k Y (Some X)) = Ok (spec_K ?b Y X)"
    using K_result[OF assms(1,2,4) o(3)] by (simp add: second_def)
  have 5: "entry (spec_K ?b X Y) i j = entry (spec_K ?b Y X) j i"
    if "i < length X" "j < length Y" for i j
    using that in_range_nat[OF assms(3) that(1)] in_range_nat[OF assms(4) that(2)] f(2)
    by (simp add: spec_K_entry B_formula_sym)
  show ?thesis
    unfolding 1 2 3 4 using 5 by (simp add: spec_K_entry)
qed

lemma spec_K_ex3:
  "spec_K ex_B [2, 0] [0, 1, 2] = \<lparr>nrows = 2, ncols = 3, data = [-1, 0, 11/10, 11/10, 0, -1]\<rparr>"
  by (simp add: spec_K_def ex_B_def mk_def entry_def upt_rec)

theorem C3_witness:
  "wf_kern ex_kern0 \<and> parameters_changed ex_kern0 = Ok ex_kern \<and>
   in_range (output_dim ex_kern) [0, 1, 2] \<and> in_range (output_dim ex_kern) [2, 0] \<and>
   snd (K ex_env ex_kern [0, 1, 2] (Some [2, 0]))
     = Ok \<lparr>nrows = 3, ncols = 2, data = [-1, 11/10, 0, 0, 11/10, -1]\<rparr> \<and>
   snd (K ex_env ex_kern [0, 1, 2] None) = Ok ex_B \<and>
   snd (K ex_env ex_kern [0, 1, 2] (Some [0, 1, 2])) = Ok ex_B \<and>
   snd (K ex_env ex_kern [2, 0] (Some [0, 1, 2]))
     = Ok \<lparr>nrows = 2, ncols = 3, data = [-1, 0, 11/10, 11/10, 0, -1]\<rparr>"
proof -
  have od: "output_dim ex_kern = 3" by (simp add: ex_kern_def ex_kern0_def)
  have h1: "in_range (output_dim ex_kern) [0, 1, 2]" by (simp add: od in_range_def)
  have h2: "in_range (output_dim ex_kern) [2, 0]" by (simp add: od in_range_def)
  show ?thesis
    using C3_K_gather[OF wf_ex_kern0 parameters_changed_ex h1 h2,
        of ex_env ex_env ex_env ex_env]
      wf_ex_kern0 parameters_changed_ex h1 h2
    by (simp add: B_formula_ex spec_K_ex1 spec_K_ex2 spec_K_ex3)
qed

lemma Kdiag_in_range:
  assumes b: "B k = Some b" "nrows b = output_dim k" "ncols b = output_dim k"
    and X: "in_range (output_dim k) X"
  shows "Kdiag k X = Ok (map (\<lambda>x. entry b (nat x) (nat x)) X)"
proof (cases "X = []")
  case True
  then show ?thesis using b by (simp add: Kdiag_def fancy1_def)
next
  case False
  have len: "length (np_diag b) = output_dim k" using b by (simp add: np_diag_def)
  have r: "0 \<le> x \<and> x < int (output_dim k)" if "x \<in> set X" for x
    using X that by (auto simp: in_range_def list_all_iff)
  have "map (\<lambda>x. np_diag b ! the (np_index (output_dim k) x)) X
      = map (\<lambda>x. entry b (nat x) (nat x)) X"
    using r b by (intro map_cong refl) (auto simp: np_diag_def nat_less_iff)
  moreover have "\<not> (\<exists>x\<in>set X. np_index (output_dim k) x = None)"
    using r by auto
  ultimately show ?thesis
    using False len by (simp add: Kdiag_converted[OF asarray_int_in_range[OF X] b(1)] fancy1_def)
qed

text \<open>
  C6: for an index vector \<open>X\<close> with entries in \<open>[0, output_dim)\<close>, \<open>Kdiag(X)\<close> returns the
  vector of length \<open>len(X)\<close> with entries \<open>B[X[i], X[i]]\<close>, and its \<open>i\<close>-th entry is the
  entry \<open>(i, i)\<close> of the matrix that \<open>K(X, X)\<close> returns.
\<close>

theorem C6_Kdiag:
  assumes "wf_kern k0" and "parameters_changed k0 = Ok k"
    and "in_range (output_dim k) X"
  shows "\<exists>v R. Kdiag k X = Ok v \<and> length v = length X \<and>
           (\<forall>i<length X. v ! i = entry (B_formula k0) (nat (X ! i)) (nat (X ! i))) \<and>
           snd (K s k X (Some X)) = Ok R \<and>
           (\<forall>i<length X. v ! i = entry R i i)"
proof -
  note f = parameters_changed_fields[OF assms(1,2)]
  have b: "B k = Some (B_formula k0)" "nrows (B_formula k0) = output_dim k"
    "ncols (B_formula k0) = output_dim k"
    using f by simp_all
  have o: "in_range_opt (output_dim k) (Some X)"
    using assms(3) by (simp add: in_range_opt_def)
  have 1: "Kdiag k X = Ok (map (\<lambda>x. entry (B_formula k0) (nat x) (nat x)) X)"
    by (rule Kdiag_in_range[OF b assms(3)])
  have 2: "snd (K s k X (Some X)) = Ok (spec_K (B_formula k0) X X)"
    using K_result[OF assms(1,2,3) o] by (simp add: second_def)
  show ?thesis unfolding 1 2 by (simp add: spec_K_entry)
qed

theorem C6_witness:
  "wf_kern ex_kern0 \<and> parameters_changed ex_kern0 = Ok ex_kern \<and>
   in_range (output_dim ex_kern) [0, 1, 2] \<and>
   Kdiag ex_kern [0, 1, 2] = Ok [11/10, 1/10, 11/10] \<and>
   snd (K ex_env ex_kern [0, 1, 2] (Some [0, 1, 2])) = Ok ex_B"
proof -
  have od: "output_dim ex_kern = 3" by (simp add: ex_kern_def ex_kern0_def)
  have h1: "in_range (output_dim ex_kern) [0, 1, 2]" by (simp add: od in_range_def)
  have "\<exists>v R. Kdiag ex_kern [0, 1, 2] = Ok v \<and>
           snd (K ex_env ex_kern [0, 1, 2] (Some [0, 1, 2])) = Ok R \<and>
           (\<forall>i<3. v ! i = entry R i i)"
    using C6_Kdiag[OF wf_ex_kern0 parameters_changed_ex h1, of ex_env] by auto
  moreover have "Kdiag ex_kern [0, 1, 2] = Ok [11/10, 1/10, 11/10]"
    by (simp add: Kdiag_def ex_kern_def ex_B_def fancy1_def np_diag_def entry_def upt_rec np_index_def
        asarray_int_def fits_long_def fits_ulong_def ulong_to_long_def)
  moreover have "snd (K ex_env ex_kern [0, 1, 2] (Some [0, 1, 2])) = Ok ex_B"
    using K_result[OF wf_ex_kern0 parameters_changed_ex h1, of "Some [0,1,2]" ex_env] h1
    by (simp add: in_range_opt_def second_def B_formula_ex spec_K_ex1)
  ultimately show ?thesis
    using wf_ex_kern0 parameters_changed_ex h1 by simp
qed

section \<open>Indices outside of the range\<close>

lemma np_index_large: "int n \<le> v \<Longrightarrow> np_index n v = None"
  by (simp add: np_index_def)

lemma np_index_wrap: "- int n \<le> v \<Longrightarrow> v < int n \<Longrightarrow> np_index n v = Some (wrap n v)"
  by (simp add: np_index_def wrap_def)

lemma has_large_None: "has_large n X \<Longrightarrow> \<exists>x\<in>set X. np_index n x = None"
  unfolding has_large_def list_ex_iff using np_index_large by blast

lemma fancy2_large:
  assumes "X \<noteq> []" "Y \<noteq> []" "has_large (nrows A) X \<or> has_large (ncols A) Y"
  shows "fancy2 A X Y = Raises IndexError"
  using assms has_large_None[of "nrows A" X] has_large_None[of "ncols A" Y]
  by (auto simp: fancy2_def)

lemma fancy1_large:
  assumes "has_large (length v) X"
  shows "fancy1 v X = Raises IndexError"
proof -
  have "X \<noteq> []" using assms by (auto simp: has_large_def)
  then show ?thesis using has_large_None[OF assms] by (simp add: fancy1_def)
qed

lemma fancy2_wrap:
  assumes "in_wrap_range (nrows A) X" "in_wrap_range (ncols A) Y"
  shows "fancy2 A X Y
       = Ok (mk (length X) (length Y) (\<lambda>i j. entry A (wrap (nrows A) (X ! i)) (wrap (ncols A) (Y ! j))))"
proof -
  have a: "np_index (nrows A) r = Some (wrap (nrows A) r)" if "r \<in> set X" for r
    using assms(1) that by (auto simp: in_wrap_range_def list_all_iff np_index_wrap)
  have b: "np_index (ncols A) c = Some (wrap (ncols A) c)" if "c \<in> set Y" for c
    using assms(2) that by (auto simp: in_wrap_range_def list_all_iff np_index_wrap)
  show ?thesis
  proof (cases "length X * length Y = 0")
    case True
    then have "mk (length X) (length Y) (\<lambda>i j. 0)
        = mk (length X) (length Y) (\<lambda>i j. entry A (wrap (nrows A) (X ! i)) (wrap (ncols A) (Y ! j)))"
      by (intro mk_cong) auto
    with True show ?thesis by (simp add: fancy2_def)
  next
    case False
    have "mk (length X) (length Y)
            (\<lambda>i j. entry A (the (np_index (nrows A) (X ! i))) (the (np_index (ncols A) (Y ! j))))
        = mk (length X) (length Y) (\<lambda>i j. entry A (wrap (nrows A) (X ! i)) (wrap (ncols A) (Y ! j)))"
      by (intro mk_cong) (simp add: a b)
    with False a b show ?thesis by (auto simp: fancy2_def)
  qed
qed

lemma fancy1_wrap:
  assumes "in_wrap_range (length v) X"
  shows "fancy1 v X = Ok (map (\<lambda>x. v ! wrap (length v) x) X)"
proof -
  have a: "np_index (length v) r = Some (wrap (length v) r)" if "r \<in> set X" for r
    using assms that by (auto simp: in_wrap_range_def list_all_iff np_index_wrap)
  have "map (\<lambda>x. v ! the (np_index (length v) x)) X = map (\<lambda>x. v ! wrap (length v) x) X"
    by (intro map_cong refl) (simp add: a)
  then show ?thesis using a by (auto simp: fancy1_def)
qed

lemma wrap_less: "- int n \<le> v \<Longrightarrow> v < int n \<Longrightarrow> wrap n v < n"
  by (auto simp: wrap_def)


text \<open>
  An index vector with an entry that no 64-bit integer type holds makes both methods
  raise OverflowError, before \<open>B\<close> is indexed.
\<close>

lemma numpy_overflow:
  assumes "\<not> fits_long X" and "\<not> fits_ulong X"
  shows "K_numpy k X X2 = Raises OverflowError"
    and "B k = Some b \<Longrightarrow> Kdiag k X = Raises OverflowError"
  using assms by (simp_all add: K_numpy_def Kdiag_def asarray_int_def)

lemma asarray_int_ex:
  "asarray_int [0, 3] = Ok [0, 3]" "asarray_int [1] = Ok [1]"
  "asarray_int [-1, 0] = Ok [-1, 0]" "asarray_int [-3] = Ok [-3]"
  "asarray_int [18446744073709551615] = Ok [-1]"
  "asarray_int [18446744073709551616] = Raises OverflowError"
  by (simp_all add: asarray_int_def fits_long_def fits_ulong_def ulong_to_long_def)



section \<open>Construction\<close>

lemma init_printed: "fst (init od rk W0 kappa0 randn) = (if od < rk then [rank_warning] else [])"
  by (simp add: init_def)

lemma init_raises_iff:
  "snd (init od rk W0 kappa0 randn) = Raises AssertionError \<longleftrightarrow> shape_mismatch od rk W0 kappa0"
  by (auto simp: init_def shape_mismatch_def split: option.splits)

lemma init_ok:
  assumes "\<not> shape_mismatch od rk W0 kappa0"
  shows "\<exists>k. snd (init od rk W0 kappa0 randn) = Ok k \<and> output_dim k = od \<and> rank k = rk \<and>
            nrows (W k) = od \<and> ncols (W k) = rk \<and> length (kappa k) = od \<and>
            (kappa0 = None \<longrightarrow> kappa k = replicate od (1/2))"
  using assms by (auto simp: init_def shape_mismatch_def map_replicate_const split: option.splits)

text \<open>
  C9, as the code has it: construction raises the assertion error exactly when a
  supplied \<open>W\<close> does not have shape \<open>(output_dim, rank)\<close> or a supplied \<open>kappa\<close> does not
  have shape \<open>(output_dim,)\<close>, and succeeds otherwise, whatever the rank; the warning
  is printed exactly when \<open>rank > output_dim\<close>; an absent \<open>kappa\<close> is initialised to
  0.5 in every entry.
\<close>

theorem C9_init:
  "(snd (init od rk W0 kappa0 randn) = Raises AssertionError \<longleftrightarrow> shape_mismatch od rk W0 kappa0) \<and>
   (\<not> shape_mismatch od rk W0 kappa0 \<longrightarrow>
      (\<exists>k. snd (init od rk W0 kappa0 randn) = Ok k \<and> output_dim k = od \<and> rank k = rk \<and>
           nrows (W k) = od \<and> ncols (W k) = rk \<and> length (kappa k) = od \<and>
           (kappa0 = None \<longrightarrow> kappa k = replicate od (1/2)))) \<and>
   fst (init od rk W0 kappa0 randn) = (if od < rk then [rank_warning] else [])"
  using init_raises_iff[of od rk W0 kappa0 randn] init_ok[of od rk W0 kappa0 randn]
    init_printed[of od rk W0 kappa0 randn]
  by blast

theorem C9_witness:
  "\<not> shape_mismatch 3 5 None None \<and>
   fst (init 3 5 None None ex_randn) = [rank_warning] \<and>
   (\<exists>k. snd (init 3 5 None None ex_randn) = Ok k \<and> kappa k = [1/2, 1/2, 1/2]) \<and>
   shape_mismatch 3 1 (Some ex_W32) None \<and>
   fst (init 3 1 (Some ex_W32) None ex_randn) = [] \<and>
   snd (init 3 1 (Some ex_W32) None ex_randn) = Raises AssertionError"
proof -
  have h1: "\<not> shape_mismatch 3 5 None None" by (simp add: shape_mismatch_def)
  have h2: "shape_mismatch 3 1 (Some ex_W32) None" by (simp add: shape_mismatch_def ex_W32_def)
  have r: "replicate 3 (1/2 :: real) = [1/2, 1/2, 1/2]" by (simp add: numeral_3_eq_3)
  show ?thesis
    using C9_init[of 3 5 None None ex_randn] C9_init[of 3 1 "Some ex_W32" None ex_randn] h1 h2
    by (auto simp: r)
qed

theorem C9_counterexample:
  "(3::nat) \<ge> 3 \<and> fst (init 3 3 None None ex_randn) = [] \<and>
   (\<exists>k. snd (init 3 3 None None ex_randn) = Ok k)"
  by (simp add: init_def)

section \<open>Gradients from the diagonal\<close>

lemma result_map_Ok:
  "(\<And>x. x \<in> set xs \<Longrightarrow> f x = Ok (g x)) \<Longrightarrow> result_map f xs = Ok (map g xs)"
  by (induction xs) simp_all

lemma sum_list_filter_if:
  "sum_list (map f (filter P xs)) = (\<Sum>x\<leftarrow>xs. if P x then (f x :: real) else 0)"
  by (induction xs) simp_all

lemma mask_vec_sum:
  assumes "length dL = length X"
  shows "rbind (mask_vec dL (eq_mask X a)) (\<lambda>sel. Ok (sum_list sel)) = Ok (spec_s dL X a)"
proof -
  have "filter (\<lambda>r. eq_mask X a ! r) [0..<length X] = filter (\<lambda>r. X ! r = int a) [0..<length X]"
    by (rule filter_cong) (simp_all add: eq_mask_def)
  then show ?thesis
    using assms by (simp add: mask_vec_def spec_s_def sum_list_filter_if eq_mask_def)
qed

lemma scale_rows_eq:
  assumes "nrows A = length s"
  shows "scale_rows A s = Ok (mk (nrows A) (ncols A) (\<lambda>a c. 2 * entry A a c * s ! a))"
proof -
  have "mk (nrows A) (ncols A)
          (\<lambda>a c. 2 * entry A (if nrows A = 1 then 0 else a) c * s ! (if length s = 1 then 0 else a))
      = mk (nrows A) (ncols A) (\<lambda>a c. 2 * entry A a c * s ! a)"
    using assms by (intro mk_cong) auto
  then show ?thesis using assms by (simp add: scale_rows_def bdim_def)
qed

text \<open>
  C8: \<open>update_gradients_diag(dL_dKdiag, X)\<close>, with one upstream gradient per entry of
  \<open>X\<close>, stores \<open>s\<close> as the gradient of \<open>kappa\<close> and \<open>2 W[a,:] s[a]\<close> as row \<open>a\<close> of the
  gradient of \<open>W\<close>, where \<open>s[a]\<close> sums \<open>dL_dKdiag[i]\<close> over the \<open>i\<close> with \<open>X[i] = a\<close>.
\<close>

theorem C8_update_gradients_diag:
  assumes "wf_kern k" and "length dL_dKdiag = length X"
  shows "update_gradients_diag k dL_dKdiag X
       = Ok (k\<lparr>W_gradient := mk (output_dim k) (rank k)
                   (\<lambda>a c. 2 * entry (W k) a c * spec_s dL_dKdiag X a),
                kappa_gradient := map (spec_s dL_dKdiag X) [0..<output_dim k]\<rparr>)"
proof -
  let ?s = "map (spec_s dL_dKdiag X) [0..<output_dim k]"
  have 1: "result_map
            (\<lambda>i. rbind (mask_vec dL_dKdiag (eq_mask X i)) (\<lambda>sel. Ok (sum_list sel)))
            [0..<output_dim k] = Ok ?s"
    by (rule result_map_Ok) (rule mask_vec_sum[OF assms(2)])
  have 2: "scale_rows (W k) ?s
         = Ok (mk (output_dim k) (rank k) (\<lambda>a c. 2 * entry (W k) a c * ?s ! a))"
    using scale_rows_eq[of "W k" ?s] assms(1) by (simp add: wf_kern_def)
  have 3: "mk (output_dim k) (rank k) (\<lambda>a c. 2 * entry (W k) a c * ?s ! a)
         = mk (output_dim k) (rank k) (\<lambda>a c. 2 * entry (W k) a c * spec_s dL_dKdiag X a)"
    by (rule mk_cong) simp
  show ?thesis
    unfolding update_gradients_diag_def 1 by (simp add: 2 3)
qed

theorem C8_witness:
  "wf_kern ex_kern \<and> length [1, 2, 3, 4 :: real] = length [0, 2, 0, 1 :: int] \<and>
   update_gradients_diag ex_kern [1, 2, 3, 4] [0, 2, 0, 1]
     = Ok (ex_kern\<lparr>W_gradient := \<lparr>nrows = 3, ncols = 1, data = [8, 0, -4]\<rparr>,
                    kappa_gradient := [4, 4, 2]\<rparr>)"
proof -
  have h: "wf_kern ex_kern" using wf_ex_kern0 by (simp add: wf_kern_def ex_kern_def)
  have s: "spec_s [1, 2, 3, 4] [0, 2, 0, 1] 0 = 4" "spec_s [1, 2, 3, 4] [0, 2, 0, 1] (Suc 0) = 4"
    "spec_s [1, 2, 3, 4] [0, 2, 0, 1] (Suc (Suc 0)) = 2"
    by (simp_all add: spec_s_def upt_rec)
  have od: "output_dim ex_kern = 3" "rank ex_kern = 1"
    "W ex_kern = \<lparr>nrows = 3, ncols = 1, data = [1, 0, -1]\<rparr>"
    by (simp_all add: ex_kern_def ex_kern0_def)
  show ?thesis
    using C8_update_gradients_diag[OF h, of "[1, 2, 3, 4]" "[0, 2, 0, 1]"] h
    by (simp add: od mk_def entry_def upt_rec s)
qed

section \<open>Gradient reduction\<close>

lemma py_for_0 [simp]: "py_for 0 body s = Ok s"
  by (simp add: py_for_def)

lemma py_for_Suc: "py_for (Suc n) body s = rbind (py_for n body s) (body n)"
  by (simp add: py_for_def)

lemma py_for_writes:
  assumes "\<And>i A. i < n \<Longrightarrow> nrows A = r \<Longrightarrow> ncols A = c \<Longrightarrow> length (data A) = L \<Longrightarrow>
             body i A = Ok (A\<lparr>data := apply_writes (ws i) (data A)\<rparr>)"
    and "nrows A = r" "ncols A = c" "length (data A) = L"
  shows "py_for n body A = Ok (A\<lparr>data := apply_writes (concat (map ws [0..<n])) (data A)\<rparr>)"
  using assms
proof (induction n)
  case 0
  then show ?case by simp
next
  case (Suc n)
  then have "py_for n body A = Ok (A\<lparr>data := apply_writes (concat (map ws [0..<n])) (data A)\<rparr>)"
    by simp
  then show ?case using Suc.prems by (simp add: py_for_Suc)
qed

lemma nth_concat_rows_list:
  assumes "i < length rs" "j < c"
  shows "concat (map (\<lambda>r. map (f r) [0..<c]) rs) ! (i * c + j) = f (rs ! i) j"
proof -
  have "map (\<lambda>r. map (f r) [0..<c]) rs = map (\<lambda>i. map (f (rs ! i)) [0..<c]) [0..<length rs]"
    by (rule nth_equalityI) simp_all
  then show ?thesis using assms by (simp add: nth_concat_rows)
qed

lemma sum_list_concat_map:
  "sum_list (concat (map (\<lambda>r. map (f r) cs) rs)) = (\<Sum>r\<leftarrow>rs. \<Sum>c\<leftarrow>cs. (f r c :: real))"
  by (induction rs) simp_all

lemma sum_list_nth_map:
  "(\<Sum>i\<leftarrow>[0..<length rs]. (g (rs ! i) :: real)) = (\<Sum>r\<leftarrow>rs. g r)"
proof -
  have "map (\<lambda>i. g (rs ! i)) [0..<length rs] = map g rs"
    by (rule nth_equalityI) simp_all
  then show ?thesis by simp
qed

lemma masked_sum:
  assumes dL: "nrows dL = length X" "ncols dL = length Y"
  shows "rbind (mask_rows dL (eq_mask X i)) (\<lambda>tmp1.
           rbind (mask_cols tmp1 (eq_mask Y j)) (\<lambda>sub. Ok (sum_list (data sub))))
       = Ok (spec_small dL X Y i j)"
proof -
  let ?selr = "filter (\<lambda>r. eq_mask X i ! r) [0..<nrows dL]"
  let ?selc = "filter (\<lambda>c. eq_mask Y j ! c) [0..<ncols dL]"
  let ?tmp = "\<lparr>nrows = length ?selr, ncols = ncols dL,
               data = concat (map (\<lambda>r. map (entry dL r) [0..<ncols dL]) ?selr)\<rparr>"
  have selr: "?selr = filter (\<lambda>r. X ! r = int i) [0..<length X]"
    unfolding dL by (rule filter_cong) (simp_all add: eq_mask_def)
  have selc: "?selc = filter (\<lambda>c. Y ! c = int j) [0..<length Y]"
    unfolding dL by (rule filter_cong) (simp_all add: eq_mask_def)
  have 1: "mask_rows dL (eq_mask X i) = Ok ?tmp"
    using dL by (simp add: mask_rows_def eq_mask_def Let_def)
  have e: "entry ?tmp r c = entry dL (?selr ! r) c" if "r < length ?selr" "c < ncols dL" for r c
    using that by (simp add: entry_def nth_concat_rows_list)
  have cs: "c < ncols dL" if "c \<in> set ?selc" for c using that by simp
  have 2: "mask_cols ?tmp (eq_mask Y j)
         = Ok \<lparr>nrows = length ?selr, ncols = length ?selc,
               data = concat (map (\<lambda>r. map (entry ?tmp r) ?selc) [0..<length ?selr])\<rparr>"
    using dL by (simp add: mask_cols_def eq_mask_def Let_def)
  have "sum_list (concat (map (\<lambda>r. map (entry ?tmp r) ?selc) [0..<length ?selr]))
      = (\<Sum>r\<leftarrow>[0..<length ?selr]. \<Sum>c\<leftarrow>?selc. entry ?tmp r c)"
    by (rule sum_list_concat_map)
  also have "\<dots> = (\<Sum>r\<leftarrow>[0..<length ?selr]. \<Sum>c\<leftarrow>?selc. entry dL (?selr ! r) c)"
    by (intro arg_cong[where f = sum_list] map_cong refl) (simp add: e cs del: set_filter)
  also have "\<dots> = (\<Sum>r\<leftarrow>?selr. \<Sum>c\<leftarrow>?selc. entry dL r c)"
    by (rule sum_list_nth_map)
  also have "\<dots> = spec_small dL X Y i j"
    unfolding selr selc spec_small_def sum_list_filter_if
    by (intro arg_cong[where f = sum_list] map_cong refl) (simp add: sum_list_0)
  finally show ?thesis unfolding 1 using 2 by simp
qed

lemma masked_sum_split:
  assumes dL: "nrows dL = length X" "ncols dL = length Y"
  obtains tmp where "mask_rows dL (eq_mask X i) = Ok tmp"
    and "\<And>j. \<exists>sub. mask_cols tmp (eq_mask Y j) = Ok sub \<and> sum_list (data sub) = spec_small dL X Y i j"
proof -
  obtain tmp where t: "mask_rows dL (eq_mask X i) = Ok tmp"
    using dL by (simp add: mask_rows_def eq_mask_def Let_def)
  have "\<exists>sub. mask_cols tmp (eq_mask Y j) = Ok sub \<and> sum_list (data sub) = spec_small dL X Y i j" for j
    using masked_sum[OF dL, of i j] unfolding t
    by (cases "mask_cols tmp (eq_mask Y j)") simp_all
  with t show ?thesis using that by blast
qed

lemma setitem_write:
  "j < nrows A \<Longrightarrow> i < ncols A \<Longrightarrow>
   setitem A j i v = Ok (A\<lparr>data := apply_writes [(j * ncols A + i, v)] (data A)\<rparr>)"
  by (simp add: setitem_def)

lemma gradient_reduce_numpy_eq:
  assumes b: "B k = Some b" "nrows b = output_dim k" "ncols b = output_dim k"
    and dL: "nrows dL = length X" "ncols dL = length Y"
  shows "gradient_reduce_numpy k dL X Y
       = Ok (mk (output_dim k) (output_dim k) (\<lambda>a c. spec_small dL X Y c a))"
proof -
  let ?n = "output_dim k"
  let ?f = "\<lambda>a c. spec_small dL X Y c a"
  let ?w = "\<lambda>i. concat (map (\<lambda>j. [(j * ?n + i, ?f j i)]) [0..<?n])"
  have body: "rbind (mask_rows dL (eq_mask X i)) (\<lambda>tmp1.
                py_for ?n (\<lambda>j small.
                    rbind (mask_cols tmp1 (eq_mask Y j)) (\<lambda>sub.
                      setitem small j i (sum_list (data sub)))) A)
            = Ok (A\<lparr>data := apply_writes (?w i) (data A)\<rparr>)"
    if i: "i < ?n" and A: "nrows A = ?n" "ncols A = ?n" "length (data A) = ?n * ?n" for i A
  proof -
    obtain tmp where t: "mask_rows dL (eq_mask X i) = Ok tmp"
      and sub: "\<And>j. \<exists>sub. mask_cols tmp (eq_mask Y j) = Ok sub
                   \<and> sum_list (data sub) = spec_small dL X Y i j"
      by (rule masked_sum_split[OF dL, of i]) blast
    have inner: "rbind (mask_cols tmp (eq_mask Y j)) (\<lambda>sub. setitem A' j i (sum_list (data sub)))
                = Ok (A'\<lparr>data := apply_writes [(j * ?n + i, ?f j i)] (data A')\<rparr>)"
      if "j < ?n" "nrows A' = ?n" "ncols A' = ?n" "length (data A') = ?n * ?n" for j A'
    proof -
      obtain s where s: "mask_cols tmp (eq_mask Y j) = Ok s" "sum_list (data s) = spec_small dL X Y i j"
        using sub[of j] by blast
      show ?thesis unfolding s(1) using that i setitem_write[of j A' i] s(2) by simp
    qed
    have "py_for ?n (\<lambda>j small.
                    rbind (mask_cols tmp (eq_mask Y j)) (\<lambda>sub.
                      setitem small j i (sum_list (data sub)))) A
        = Ok (A\<lparr>data := apply_writes (?w i) (data A)\<rparr>)"
      by (rule py_for_writes[where r = ?n and c = ?n and L = "?n * ?n"]) (simp_all add: inner A)
    then show ?thesis by (simp add: t)
  qed
  let ?Z = "zeros_like b"
  have Z: "nrows ?Z = ?n" "ncols ?Z = ?n" "length (data ?Z) = ?n * ?n"
    using b by (simp_all add: zeros_like_def)
  have "py_for ?n (\<lambda>i small.
          rbind (mask_rows dL (eq_mask X i)) (\<lambda>tmp1.
            py_for ?n (\<lambda>j small.
                rbind (mask_cols tmp1 (eq_mask Y j)) (\<lambda>sub.
                  setitem small j i (sum_list (data sub)))) small)) ?Z
      = Ok (?Z\<lparr>data := apply_writes (concat (map ?w [0..<?n])) (data ?Z)\<rparr>)"
    by (rule py_for_writes[where r = ?n and c = ?n and L = "?n * ?n"]) (simp_all add: body Z)
  moreover have "apply_writes (concat (map ?w [0..<?n])) (data ?Z) = data (mk ?n ?n ?f)"
  proof (rule apply_writes_grid)
    show "length (data ?Z) = ?n * ?n" by (rule Z)
  next
    fix j i assume ji: "j < ?n" "i < ?n"
    have "(j * ?n + i, ?f j i) \<in> set (?w i)"
      using ji by (intro in_concat_mapI[of j "[0..<?n]" _ "\<lambda>j. [(j * ?n + i, ?f j i)]"]) simp_all
    then show "(j * ?n + i, ?f j i) \<in> set (concat (map ?w [0..<?n]))"
      using ji by (intro in_concat_mapI[of i "[0..<?n]" _ ?w]) simp_all
  next
    fix p v assume "(p, v) \<in> set (concat (map ?w [0..<?n]))"
    from in_concat_mapD[OF this] obtain i where i: "i \<in> set [0..<?n]" "(p, v) \<in> set (?w i)"
      by blast
    from in_concat_mapD[OF i(2)] obtain j where j: "j \<in> set [0..<?n]" "(p, v) \<in> set [(j * ?n + i, ?f j i)]"
      by blast
    then show "\<exists>j i. j < ?n \<and> i < ?n \<and> p = j * ?n + i \<and> v = ?f j i"
      using i by auto
  qed
  moreover have "?Z\<lparr>data := data (mk ?n ?n ?f)\<rparr> = mk ?n ?n ?f"
    using Z by (simp add: mk_def zeros_like_def)
  ultimately show ?thesis using b(1) by (simp add: gradient_reduce_numpy_def)
qed

lemma sum_list_map_concat:
  "sum_list (map g (concat (map h xs))) = (\<Sum>x\<leftarrow>xs. sum_list (map g (h x :: 'b list)) :: real)"
  by (induction xs) simp_all

lemma reduce_step:
  assumes X: "in_range od X" and Y: "in_range od Y"
    and dL: "length dL = length X * length Y"
    and i: "i < length Y" and j: "j < length X" and sm: "length sm = od * od"
  shows "do { d \<leftarrow> c_read dL (int i + int j * int (length Y));
              old \<leftarrow> c_read sm (X ! j + int od * Y ! i);
              c_write sm (X ! j + int od * Y ! i) (old + d) }
       = Some (apply_adds [(nat (Y ! i) * od + nat (X ! j), dL ! (j * length Y + i))] sm)"
proof -
  obtain x where x: "X ! j = int x" "x < od" "nat (X ! j) = x"
    using in_range_nat[OF X j] by metis
  obtain y where y: "Y ! i = int y" "y < od" "nat (Y ! i) = y"
    using in_range_nat[OF Y i] by metis
  have p1: "X ! j + int od * Y ! i = int (y * od + x)" by (simp add: x y)
  have p2: "int i + int j * int (length Y) = int (j * length Y + i)" by simp
  have b1: "y * od + x < length sm" using x y sm flat_index_less by simp
  have b2: "j * length Y + i < length dL" using j i dL flat_index_less by simp
  show ?thesis unfolding p1 p2 using b1 b2 by (simp add: x y del: of_nat_add of_nat_mult)
qed

lemma gradient_reduce_code_adds:
  assumes X: "in_range od X" and Y: "in_range od Y"
    and dL: "length dL = length X * length Y" and sm: "length sm = od * od"
  shows "gradient_reduce_code dL X Y (length X) (length Y) od sm
       = Some (apply_adds
           (concat (map (\<lambda>i. concat (map (\<lambda>j. [(nat (Y ! i) * od + nat (X ! j), dL ! (j * length Y + i))])
                                          [0..<length X])) [0..<length Y])) sm)"
proof -
  have inner: "c_for (length X) (\<lambda>j sm. do {
             d \<leftarrow> c_read dL (int i + int j * int (length Y));
             old \<leftarrow> c_read sm (X ! j + int od * Y ! i);
             c_write sm (X ! j + int od * Y ! i) (old + d) }) t
       = Some (apply_adds (concat (map (\<lambda>j. [(nat (Y ! i) * od + nat (X ! j), dL ! (j * length Y + i))])
                                       [0..<length X])) t)"
    if "i < length Y" "length t = od * od" for i t
    by (rule c_for_adds[where L = "od * od"]) (simp_all add: reduce_step[OF X Y dL that(1)] that)
  show ?thesis
    unfolding gradient_reduce_code_def
    by (rule c_for_adds[where L = "od * od"]) (simp_all add: inner sm)
qed

lemma reduce_sum:
  assumes X: "in_range od X" and Y: "in_range od Y"
    and dL: "ncols dL = length Y" and a: "a < od" and c: "c < od"
  shows "(\<Sum>(p, v)\<leftarrow>concat (map (\<lambda>i. concat (map (\<lambda>j. [(nat (Y ! i) * od + nat (X ! j),
                                                       data dL ! (j * length Y + i))])
                                          [0..<length X])) [0..<length Y]).
            if p = a * od + c then v else 0)
       = spec_small dL X Y c a"
proof -
  have key: "(nat (Y ! i) * od + nat (X ! j) = a * od + c) = (X ! j = int c \<and> Y ! i = int a)"
    if "i < length Y" "j < length X" for i j
  proof -
    have x: "X ! j = int (nat (X ! j))" "nat (X ! j) < od" using in_range_nat[OF X that(2)] by simp_all
    have y: "Y ! i = int (nat (Y ! i))" "nat (Y ! i) < od" using in_range_nat[OF Y that(1)] by simp_all
    show ?thesis
      using flat_index_inj[of "nat (X ! j)" od c "nat (Y ! i)" a] x y c by auto
  qed
  have "(\<Sum>(p, v)\<leftarrow>concat (map (\<lambda>i. concat (map (\<lambda>j. [(nat (Y ! i) * od + nat (X ! j),
                                                       data dL ! (j * length Y + i))])
                                          [0..<length X])) [0..<length Y]).
            if p = a * od + c then v else 0)
      = (\<Sum>i\<leftarrow>[0..<length Y]. \<Sum>j\<leftarrow>[0..<length X].
            if nat (Y ! i) * od + nat (X ! j) = a * od + c then entry dL j i else 0)"
    by (simp add: sum_list_map_concat entry_def dL comp_def cong: if_cong)
  also have "\<dots> = (\<Sum>i<length Y. \<Sum>j<length X. if X ! j = int c \<and> Y ! i = int a then entry dL j i else 0)"
    unfolding sum_list_upt by (intro sum.cong refl) (simp add: key)
  also have "\<dots> = (\<Sum>j<length X. \<Sum>i<length Y. if X ! j = int c \<and> Y ! i = int a then entry dL j i else 0)"
    by (rule sum.swap)
  also have "\<dots> = spec_small dL X Y c a"
    by (simp add: spec_small_def sum_list_upt)
  finally show ?thesis .
qed

lemma gradient_reduce_weave_eq:
  assumes b: "B k = Some b" "nrows b = output_dim k" "ncols b = output_dim k"
    and X: "in_range (output_dim k) X" and Y: "in_range (output_dim k) Y"
    and dL: "nrows dL = length X" "ncols dL = length Y" "wf_arr dL"
    and s: "no_fault s"
  shows "gradient_reduce_weave s k dL X Y
       = (s\<lparr>faults := tl (faults s)\<rparr>,
          Ok (mk (output_dim k) (output_dim k) (\<lambda>a c. spec_small dL X Y c a)))"
proof -
  let ?n = "output_dim k"
  let ?f = "\<lambda>a c. spec_small dL X Y c a"
  let ?Z = "zeros_like b"
  let ?ws = "concat (map (\<lambda>i. concat (map (\<lambda>j. [(nat (Y ! i) * ?n + nat (X ! j),
                                                   data dL ! (j * length Y + i))])
                                          [0..<length X])) [0..<length Y])"
  have Z: "nrows ?Z = ?n" "ncols ?Z = ?n" "length (data ?Z) = ?n * ?n"
    using b by (simp_all add: zeros_like_def)
  have len: "length (data dL) = length X * length Y"
    using dL by (simp add: wf_arr_def)
  have code: "gradient_reduce_code (data dL) X Y (length X) (length Y) ?n (data ?Z)
            = Some (apply_adds ?ws (data ?Z))"
    by (rule gradient_reduce_code_adds[OF X Y len Z(3)])
  have "apply_adds ?ws (data ?Z) = data (mk ?n ?n ?f)"
  proof (rule nth_equalityI)
    show "length (apply_adds ?ws (data ?Z)) = length (data (mk ?n ?n ?f))" by (simp add: Z)
  next
    fix q assume "q < length (apply_adds ?ws (data ?Z))"
    then have q: "q < ?n * ?n" by (simp add: Z)
    then have n: "0 < ?n" by (cases ?n) auto
    define a c where "a = q div ?n" and "c = q mod ?n"
    have ac: "a < ?n" "c < ?n" "q = a * ?n + c"
      using q n by (simp_all add: a_def c_def less_mult_imp_div_less)
    have z: "data ?Z ! (a * ?n + c) = 0"
      using ac b nth_concat_rows[of a ?n c ?n "\<lambda>i j. 0"] by (simp add: zeros_like_def mk_def)
    have "apply_adds ?ws (data ?Z) ! q
        = data ?Z ! q + (\<Sum>(p, v)\<leftarrow>?ws. if p = q then v else 0)"
      by (rule apply_adds_nth) (simp add: Z q)
    also have "\<dots> = spec_small dL X Y c a"
      unfolding ac(3) z using reduce_sum[OF X Y dL(2) ac(1,2)] by simp
    also have "\<dots> = data (mk ?n ?n ?f) ! q"
      unfolding ac(3) using ac by (simp add: mk_def nth_concat_rows)
    finally show "apply_adds ?ws (data ?Z) ! q = data (mk ?n ?n ?f) ! q" .
  qed
  moreover have "?Z\<lparr>data := data (mk ?n ?n ?f)\<rparr> = mk ?n ?n ?f"
    using Z by (simp add: mk_def zeros_like_def)
  ultimately show ?thesis
    using b(1) by (simp add: gradient_reduce_weave_def code weave_inline_ok[OF s])
qed

lemma ex_kern_B: "B ex_kern = Some ex_B" "nrows ex_B = output_dim ex_kern"
  "ncols ex_B = output_dim ex_kern" "output_dim ex_kern = 3"
  by (simp_all add: ex_kern_def ex_kern0_def ex_B_def)

text \<open>
  C1, as the code has it: with index vectors in \<open>[0, output_dim)\<close> and an upstream
  gradient of shape \<open>(n1, n2)\<close>, \<open>_gradient_reduce_numpy\<close> and a call of
  \<open>_gradient_reduce_weave\<close> that does not raise both return the
  \<open>output_dim \<times> output_dim\<close> matrix whose entry \<open>(a, b)\<close> is the sum of \<open>dL_dK[i,j]\<close> over
  the pairs with \<open>X[i] = b\<close> and \<open>X2[j] = a\<close>: the transpose of the matrix that the
  specification calls \<open>small\<close>.
\<close>

theorem C1_gradient_reduce:
  assumes "wf_kern k0" and "parameters_changed k0 = Ok k"
    and "in_range (output_dim k) X" and "in_range (output_dim k) Y"
    and "nrows dL_dK = length X" and "ncols dL_dK = length Y" and "wf_arr dL_dK"
  shows "gradient_reduce_numpy k dL_dK X Y
           = Ok (mk (output_dim k) (output_dim k) (\<lambda>a b. spec_small dL_dK X Y b a)) \<and>
         (no_fault s \<longrightarrow>
            snd (gradient_reduce_weave s k dL_dK X Y)
              = Ok (mk (output_dim k) (output_dim k) (\<lambda>a b. spec_small dL_dK X Y b a)))"
proof -
  note f = parameters_changed_fields[OF assms(1,2)]
  have b: "B k = Some (B_formula k0)" "nrows (B_formula k0) = output_dim k"
    "ncols (B_formula k0) = output_dim k"
    using f by simp_all
  show ?thesis
    using gradient_reduce_numpy_eq[OF b assms(5,6)]
      gradient_reduce_weave_eq[OF b assms(3,4,5,6,7), of s]
    by simp
qed

lemma ex_small32:
  "mk 3 3 (\<lambda>a b. spec_small ex_dL32 [0, 2, 0] [1, 0] b a)
     = \<lparr>nrows = 3, ncols = 3, data = [8, 0, 4, 6, 0, 3, 0, 0, 0]\<rparr>"
  by (simp add: mk_def spec_small_def ex_dL32_def entry_def upt_rec)

lemma ex_small11:
  "mk 3 3 (\<lambda>a b. spec_small ex_dL11 [0] [1] b a)
     = \<lparr>nrows = 3, ncols = 3, data = [0, 0, 0, 1, 0, 0, 0, 0, 0]\<rparr>"
  by (simp add: mk_def spec_small_def ex_dL11_def entry_def upt_rec)

theorem C1_witness:
  "wf_kern ex_kern0 \<and> parameters_changed ex_kern0 = Ok ex_kern \<and>
   in_range (output_dim ex_kern) [0, 2, 0] \<and> in_range (output_dim ex_kern) [1, 0] \<and>
   nrows ex_dL32 = length [0, 2, 0 :: int] \<and> ncols ex_dL32 = length [1, 0 :: int] \<and>
   wf_arr ex_dL32 \<and> no_fault ex_env \<and>
   gradient_reduce_numpy ex_kern ex_dL32 [0, 2, 0] [1, 0]
     = Ok \<lparr>nrows = 3, ncols = 3, data = [8, 0, 4, 6, 0, 3, 0, 0, 0]\<rparr> \<and>
   snd (gradient_reduce_weave ex_env ex_kern ex_dL32 [0, 2, 0] [1, 0])
     = Ok \<lparr>nrows = 3, ncols = 3, data = [8, 0, 4, 6, 0, 3, 0, 0, 0]\<rparr>"
proof -
  have h1: "in_range (output_dim ex_kern) [0, 2, 0]" "in_range (output_dim ex_kern) [1, 0]"
    by (simp_all add: ex_kern_B in_range_def)
  have h2: "nrows ex_dL32 = length [0, 2, 0 :: int]" "ncols ex_dL32 = length [1, 0 :: int]"
    "wf_arr ex_dL32"
    by (simp_all add: ex_dL32_def wf_arr_def)
  have h3: "no_fault ex_env" by (simp add: no_fault_def ex_env_def)
  show ?thesis
    using C1_gradient_reduce[OF wf_ex_kern0 parameters_changed_ex h1 h2, of ex_env]
      wf_ex_kern0 parameters_changed_ex h1 h2 h3
    by (simp add: ex_kern_B ex_small32)
qed

theorem C1_counterexample:
  "in_range (output_dim ex_kern) [0] \<and> in_range (output_dim ex_kern) [1] \<and>
   gradient_reduce_numpy ex_kern ex_dL11 [0] [1]
     = Ok \<lparr>nrows = 3, ncols = 3, data = [0, 0, 0, 1, 0, 0, 0, 0, 0]\<rparr> \<and>
   snd (gradient_reduce_weave ex_env ex_kern ex_dL11 [0] [1])
     = Ok \<lparr>nrows = 3, ncols = 3, data = [0, 0, 0, 1, 0, 0, 0, 0, 0]\<rparr> \<and>
   entry \<lparr>nrows = 3, ncols = 3, data = [0, 0, 0, 1, 0, 0, 0, 0, 0]\<rparr> 0 1 = 0 \<and>
   spec_small ex_dL11 [0] [1] 0 1 = 1"
proof -
  have h1: "in_range (output_dim ex_kern) [0]" "in_range (output_dim ex_kern) [1]"
    by (simp_all add: ex_kern_B in_range_def)
  have h2: "nrows ex_dL11 = length [0 :: int]" "ncols ex_dL11 = length [1 :: int]" "wf_arr ex_dL11"
    by (simp_all add: ex_dL11_def wf_arr_def)
  have h3: "no_fault ex_env" by (simp add: no_fault_def ex_env_def)
  have "spec_small ex_dL11 [0] [1] 0 1 = 1"
    by (simp add: spec_small_def ex_dL11_def entry_def)
  then show ?thesis
    using gradient_reduce_numpy_eq[OF ex_kern_B(1,2,3) h2(1,2)]
      gradient_reduce_weave_eq[OF ex_kern_B(1,2,3) h1 h2 h3] h1
    by (simp add: ex_kern_B ex_small11 entry_def)
qed

section \<open>Gradients of the parameters\<close>

lemma gradients_from_small:
  assumes wf: "wf_kern k"
  shows "(let h = (\<lambda>a. None)(small_addr \<mapsto>
                    mk (output_dim k) (output_dim k) (\<lambda>a b. spec_small dL X Y b a));
              dkappa = np_diag_of s1 h small_addr
          in rbind (iadd_transpose h small_addr) (\<lambda>h'.
               rbind (dW_of (W k) (the (h' small_addr))) (\<lambda>dW.
                 Ok (k\<lparr>W_gradient := dW, kappa_gradient := deref h' dkappa\<rparr>))))
       = Ok (k\<lparr>W_gradient := spec_dW k dL X Y, kappa_gradient := stored_dkappa s1 k dL X Y\<rparr>)"
proof -
  let ?n = "output_dim k"
  define S where "S = mk (output_dim k) (output_dim k) (\<lambda>a b. spec_small dL X Y b a)"
  let ?S2 = "mk ?n ?n (\<lambda>i j. entry S i j + entry S j i)"
  let ?h = "(\<lambda>a. None)(small_addr \<mapsto> S)"
  have S: "nrows S = ?n" "ncols S = ?n" by (simp_all add: S_def)
  have 1: "iadd_transpose ?h small_addr = Ok (?h(small_addr \<mapsto> ?S2))"
    by (simp add: iadd_transpose_def S)
  have eS: "entry S a b = spec_small dL X Y b a" if "a < ?n" "b < ?n" for a b
    using that by (simp add: S_def)
  have e2: "entry ?S2 a b = spec_small dL X Y b a + spec_small dL X Y a b" if "a < ?n" "b < ?n" for a b
    using that by (simp add: eS)
  have 2: "dW_of (W k) ?S2 = Ok (spec_dW k dL X Y)"
  proof -
    have "mk ?n (rank k)
            (\<lambda>b c. \<Sum>a\<leftarrow>[0..<?n]. entry (W k) (if ?n = 1 then 0 else a) c
                                  * entry ?S2 (if ?n = 1 then 0 else a) b)
        = spec_dW k dL X Y"
      unfolding spec_dW_def
    proof (rule mk_cong)
      fix i j assume ij: "i < ?n" "j < rank k"
      show "(\<Sum>a\<leftarrow>[0..<?n]. entry (W k) (if ?n = 1 then 0 else a) j
                              * entry ?S2 (if ?n = 1 then 0 else a) i)
          = (\<Sum>c\<leftarrow>[0..<?n]. (spec_small dL X Y i c + spec_small dL X Y c i) * entry (W k) c j)"
        unfolding sum_list_upt
        by (rule sum.cong) (use ij in \<open>auto simp: eS mult.commute\<close>)
    qed
    then show ?thesis using wf by (simp add: dW_of_def wf_kern_def bdim_def)
  qed
  have 3: "np_diag S = spec_dkappa k dL X Y"
    by (simp add: np_diag_def spec_dkappa_def S_def)
  have 4: "np_diag ?S2 = map (\<lambda>a. 2 * spec_small dL X Y a a) [0..<?n]"
    by (simp add: np_diag_def eS)
  have 5: "deref [small_addr \<mapsto> ?S2] (np_diag_of s1 ?h small_addr) = stored_dkappa s1 k dL X Y"
    by (simp add: np_diag_of_def deref_def stored_dkappa_def 3 4)
  show ?thesis
    unfolding S_def[symmetric] Let_def 1 rbind_simps by (simp add: 2 5)
qed

lemma gradient_reduce_weave_fault:
  assumes "B k = Some b" "\<not> no_fault s"
  shows "gradient_reduce_weave s k dL X Y = (s\<lparr>faults := tl (faults s)\<rparr>, Raises WeaveError)"
  using assms by (simp add: gradient_reduce_weave_def weave_inline_fault)

lemma update_gradients_full_numpy:
  assumes wf: "wf_kern k0" and pc: "parameters_changed k0 = Ok k"
    and dL: "nrows dL = length X" "ncols dL = length (second X X2)"
    and s: "\<not> working s"
  shows "update_gradients_full s k dL X X2
       = (s, Ok (k\<lparr>W_gradient := spec_dW k dL X (second X X2),
                    kappa_gradient := stored_dkappa s k dL X (second X X2)\<rparr>))"
proof -
  note f = parameters_changed_fields[OF wf pc]
  have b: "B k = Some (B_formula k0)" "nrows (B_formula k0) = output_dim k"
    "ncols (B_formula k0) = output_dim k"
    using f by simp_all
  have r: "gradient_reduce_numpy k dL X (second X X2)
         = Ok (mk (output_dim k) (output_dim k) (\<lambda>a c. spec_small dL X (second X X2) c a))"
    by (rule gradient_reduce_numpy_eq[OF b dL])
  have i2: "(case X2 of None \<Rightarrow> X | Some Y \<Rightarrow> Y) = second X X2" by (simp add: second_def)
  show ?thesis
    unfolding update_gradients_full_def Let_def i2 using s
    by (simp add: r gradients_from_small[OF f(6), unfolded Let_def])
qed

lemma update_gradients_full_weave:
  assumes wf: "wf_kern k0" and pc: "parameters_changed k0 = Ok k"
    and X: "in_range (output_dim k) X" and Y: "in_range (output_dim k) (second X X2)"
    and dL: "nrows dL = length X" "ncols dL = length (second X X2)" "wf_arr dL"
    and s: "working s" "no_fault s"
  shows "update_gradients_full s k dL X X2
       = (s\<lparr>faults := tl (faults s)\<rparr>,
          Ok (k\<lparr>W_gradient := spec_dW k dL X (second X X2),
                 kappa_gradient := stored_dkappa s k dL X (second X X2)\<rparr>))"
proof -
  note f = parameters_changed_fields[OF wf pc]
  have b: "B k = Some (B_formula k0)" "nrows (B_formula k0) = output_dim k"
    "ncols (B_formula k0) = output_dim k"
    using f by simp_all
  have r: "gradient_reduce_weave s k dL X (second X X2)
         = (s\<lparr>faults := tl (faults s)\<rparr>,
            Ok (mk (output_dim k) (output_dim k) (\<lambda>a c. spec_small dL X (second X X2) c a)))"
    by (rule gradient_reduce_weave_eq[OF b X Y dL s(2)])
  have i2: "(case X2 of None \<Rightarrow> X | Some Y \<Rightarrow> Y) = second X X2" by (simp add: second_def)
  have d: "stored_dkappa (s\<lparr>faults := tl (faults s)\<rparr>) k dL X (second X X2)
         = stored_dkappa s k dL X (second X X2)"
    by (simp add: stored_dkappa_def)
  show ?thesis
    unfolding update_gradients_full_def Let_def i2 using s(1)
    by (simp add: r gradients_from_small[OF f(6), unfolded Let_def] d)
qed

lemma update_gradients_full_two_faults:
  assumes "B k = Some b" "working s" "\<not> no_fault s" "\<not> no_fault (s\<lparr>faults := tl (faults s)\<rparr>)"
  shows "update_gradients_full s k dL X X2
       = (s\<lparr>faults := tl (tl (faults s)), working := False,
             printed := printed s @ [fallback_message]\<rparr>, Raises WeaveError)"
proof -
  let ?s1 = "s\<lparr>faults := tl (faults s)\<rparr>"
  let ?s2 = "?s1\<lparr>working := False, printed := printed ?s1 @ [fallback_message]\<rparr>"
  have n2: "\<not> no_fault ?s2" using assms(4) by (simp add: no_fault_def)
  have 1: "gradient_reduce_weave s k dL X Y = (?s1, Raises WeaveError)" for Y
    by (rule gradient_reduce_weave_fault[OF assms(1,3)])
  have 2: "gradient_reduce_weave ?s2 k dL X Y = (?s2\<lparr>faults := tl (faults ?s2)\<rparr>, Raises WeaveError)" for Y
    by (rule gradient_reduce_weave_fault[OF assms(1) n2])
  show ?thesis
    unfolding update_gradients_full_def Let_def
    using assms(2) 2[of "case X2 of None \<Rightarrow> X | Some Y \<Rightarrow> Y"]
    by (simp add: 1)
qed

lemma K_fallback:
  assumes "B k = Some b" "working s" "\<not> no_fault s"
  shows "K s k X X2
       = (s\<lparr>faults := tl (faults s), working := False,
             printed := printed s @ [fallback_message]\<rparr>, K_numpy k X X2)"
  using assms by (simp add: K_def K_weave_fault)

lemma K_flag_stays_off: "\<not> working s \<Longrightarrow> \<not> working (fst (K s k X X2))"
  by (simp add: K_def)

lemma update_gradients_full_flag_stays_off:
  "\<not> working s \<Longrightarrow> \<not> working (fst (update_gradients_full s k dL X X2))"
  by (simp add: update_gradients_full_def Let_def)

lemma stored_dkappa_copy:
  "\<not> diag_view s \<Longrightarrow> stored_dkappa s k dL X Y = spec_dkappa k dL X Y"
  by (simp add: stored_dkappa_def)

lemma stored_dkappa_view:
  "diag_view s \<Longrightarrow> stored_dkappa s k dL X Y = map (\<lambda>v. 2 * v) (spec_dkappa k dL X Y)"
  by (simp add: stored_dkappa_def spec_dkappa_def)

lemma wf_ex_kern: "wf_kern ex_kern"
  using wf_ex_kern0 by (simp add: wf_kern_def ex_kern_def)

text \<open>
  C2, at a concrete call on the numpy path with \<open>np.diag\<close> returning a view (numpy 1.9
  and later): \<open>output_dim = 3\<close>, \<open>W = [[1],[0],[-1]]\<close>, \<open>X = [0]\<close>, \<open>X2\<close> omitted and
  \<open>dL_dK = [[1]]\<close>. The diagonal of \<open>small\<close> is \<open>[1, 0, 0]\<close>; the gradient of \<open>kappa\<close>
  that the call stores is \<open>[2, 0, 0]\<close>, because the diagonal is read after
  \<open>dL_dK_small += dL_dK_small.T\<close>. The gradient of \<open>W\<close> that it stores is
  \<open>(small + small\<^sup>T) W\<close>.
\<close>

theorem C2_kappa_gradient_doubled:
  "diag_view ex_env_numpy \<and>
   update_gradients_full ex_env_numpy ex_kern ex_dL11 [0] None
     = (ex_env_numpy,
        Ok (ex_kern\<lparr>W_gradient := \<lparr>nrows = 3, ncols = 1, data = [2, 0, 0]\<rparr>,
                       kappa_gradient := [2, 0, 0]\<rparr>)) \<and>
   spec_dkappa ex_kern ex_dL11 [0] [0] = [1, 0, 0] \<and>
   spec_dW ex_kern ex_dL11 [0] [0] = \<lparr>nrows = 3, ncols = 1, data = [2, 0, 0]\<rparr>"
proof -
  have v: "diag_view ex_env_numpy" "\<not> working ex_env_numpy"
    by (simp_all add: ex_env_numpy_def)
  have dL: "nrows ex_dL11 = length [0 :: int]" "ncols ex_dL11 = length (second [0] None)"
    by (simp_all add: ex_dL11_def second_def)
  have s: "spec_small ex_dL11 [0] [0] 0 0 = 1" "spec_small ex_dL11 [0] [0] 0 (Suc 0) = 0"
    "spec_small ex_dL11 [0] [0] (Suc 0) 0 = 0" "spec_small ex_dL11 [0] [0] (Suc 0) (Suc 0) = 0"
    "spec_small ex_dL11 [0] [0] 0 (Suc (Suc 0)) = 0" "spec_small ex_dL11 [0] [0] (Suc (Suc 0)) 0 = 0"
    "spec_small ex_dL11 [0] [0] (Suc 0) (Suc (Suc 0)) = 0"
    "spec_small ex_dL11 [0] [0] (Suc (Suc 0)) (Suc 0) = 0"
    "spec_small ex_dL11 [0] [0] (Suc (Suc 0)) (Suc (Suc 0)) = 0"
    by (simp_all add: spec_small_def ex_dL11_def entry_def)
  have k: "output_dim ex_kern = 3" "rank ex_kern = 1"
    "W ex_kern = \<lparr>nrows = 3, ncols = 1, data = [1, 0, -1]\<rparr>"
    by (simp_all add: ex_kern_def ex_kern0_def)
  have 1: "spec_dkappa ex_kern ex_dL11 [0] [0] = [1, 0, 0]"
    by (simp add: spec_dkappa_def k upt_rec s)
  have 2: "spec_dW ex_kern ex_dL11 [0] [0] = \<lparr>nrows = 3, ncols = 1, data = [2, 0, 0]\<rparr>"
    by (simp add: spec_dW_def k mk_def upt_rec s entry_def)
  show ?thesis
    using update_gradients_full_numpy[OF wf_ex_kern0 parameters_changed_ex dL v(2)] v(1)
    by (simp add: second_def stored_dkappa_view 1 2)
qed

text \<open>
  C4, at a concrete call: weave is enabled and each call of \<open>weave.inline\<close> fails. \<open>K\<close>
  catches the failure, clears the flag and returns what the numpy path returns.
  \<open>update_gradients_full\<close> catches the failure and clears the flag, but its handler
  calls \<open>_gradient_reduce_weave\<close> again, and the second failure reaches the caller.
\<close>

theorem C4_update_gradients_full_raises:
  "working ex_env_broken \<and>
   update_gradients_full ex_env_broken ex_kern ex_dL11 [0] None
     = (ex_env_broken\<lparr>faults := [], working := False, printed := [fallback_message]\<rparr>,
        Raises WeaveError) \<and>
   K ex_env_broken ex_kern [0, 1, 2] None
     = (ex_env_broken\<lparr>faults := [True], working := False, printed := [fallback_message]\<rparr>,
        Ok ex_B)"
proof -
  have w: "working ex_env_broken" "\<not> no_fault ex_env_broken"
    "\<not> no_fault (ex_env_broken\<lparr>faults := tl (faults ex_env_broken)\<rparr>)"
    by (simp_all add: ex_env_broken_def no_fault_def)
  have h1: "in_range (output_dim ex_kern) [0, 1, 2]" by (simp add: ex_kern_B in_range_def)
  have n: "K_numpy ex_kern [0, 1, 2] None = Ok ex_B"
    using K_numpy_in_range(1)[OF ex_kern_B(1,2,3) h1] by (simp add: spec_K_ex1)
  show ?thesis
    using update_gradients_full_two_faults[OF ex_kern_B(1) w, of ex_dL11 "[0]" None]
      K_fallback[OF ex_kern_B(1) w(1,2), of "[0, 1, 2]" None] w(1)
    by (simp add: n) (simp add: ex_env_broken_def)
qed

section \<open>The symmetric weave path and the symmetry of B\<close>

lemma K_weave_mirrors_upper_triangle:
  "snd (K_weave ex_env ex_kern_asym [0, 1] None) = Ok \<lparr>nrows = 2, ncols = 2, data = [0, 1, 1, 0]\<rparr> \<and>
   K_numpy ex_kern_asym [0, 1] None = Ok \<lparr>nrows = 2, ncols = 2, data = [0, 1, 0, 0]\<rparr>"
proof -
  have X: "in_range 2 [0, 1]" by (simp add: in_range_def)
  have "K_weave_code1 [0, 1, 0, 0] [0, 1] (length [0, 1 :: int]) 2 [0, 0, 0, 0]
      = Some (data (mk (length [0, 1 :: int]) (length [0, 1 :: int])
           (\<lambda>a c. [0, 1, 0, 0] ! (nat ([0, 1] ! min a c) * 2 + nat ([0, 1] ! max a c)))))"
    by (rule K_weave_code1_eq[OF X]) simp_all
  then have 1: "K_weave_code1 [0, 1, 0, 0] [0, 1] (Suc (Suc 0)) 2 [0, 0, 0, 0] = Some [0, 1, 1, 0]"
    by (simp add: mk_def upt_rec)
  have 2: "K_numpy ex_kern_asym [0, 1] None = Ok \<lparr>nrows = 2, ncols = 2, data = [0, 1, 0, 0]\<rparr>"
    by (simp add: K_numpy_def ex_kern_asym_def fancy2_def np_index_def mk_def entry_def upt_rec
        asarray_int_def fits_long_def fits_ulong_def ulong_to_long_def)
  show ?thesis
    using 1 2
    by (simp add: K_weave_def ex_kern_asym_def np_empty_def ex_env_def weave_inline_def upt_rec)
qed

end
